theory Spec2Isabelle
  imports Complex_Main "HOL-Library.Code_Target_Nat"
begin

section \<open>Workflow Observer: PDFWorkflowService\<close>

text \<open>
  The in-memory job and step mirror of \<^verbatim>\<open>PDFWorkflowService\<close>. The types
  \<^verbatim>\<open>WorkflowJob\<close> and \<^verbatim>\<open>WorkflowStep\<close> are imported by the service from the
  viewer component; their fields are the ones the service reads and writes. Dates are
  millisecond timestamps. The \<^verbatim>\<open>icon\<close> field of a step is a rendering component and
  is left out.
\<close>

datatype status = Pending | Running | Completed | Failed

record WorkflowStep =
  step_id :: string
  step_name :: string
  step_description :: string
  step_status :: status
  step_startTime :: "int option"
  step_endTime :: "int option"
  step_duration :: "int option"
  step_error :: "string option"
  step_logs :: "string list"
  step_details :: "string list"
  step_metadata :: "(string \<times> string) list"

text \<open>\<^verbatim>\<open>Partial<WorkflowStep>\<close>: every field may be absent.\<close>

record StepUpdates =
  upd_status :: "status option"
  upd_startTime :: "int option"
  upd_endTime :: "int option"
  upd_duration :: "int option"
  upd_error :: "string option"
  upd_logs :: "string list option"
  upd_details :: "string list option"
  upd_metadata :: "(string \<times> string) list option"

record WorkflowJob =
  job_id :: string
  job_name :: string
  job_filename :: string
  job_status :: status
  job_startTime :: int
  job_endTime :: "int option"
  job_steps :: "WorkflowStep list"

text \<open>
  The service state: the \<^verbatim>\<open>jobs\<close> map, and the snapshots handed to the subscribed
  callbacks by \<^verbatim>\<open>notifyUpdate\<close>, in the order they were sent.
\<close>

record service =
  jobs :: "string \<rightharpoonup> WorkflowJob"
  notified :: "WorkflowJob list"

text \<open>\<^verbatim>\<open>Array.prototype.findIndex\<close>; the result \<^verbatim>\<open>-1\<close> is \<open>None\<close>.\<close>

fun findIndex :: "('a \<Rightarrow> bool) \<Rightarrow> 'a list \<Rightarrow> nat option" where
  "findIndex P [] = None"
| "findIndex P (x # xs) =
     (if P x then Some 0 else map_option Suc (findIndex P xs))"

text \<open>The object spread \<^verbatim>\<open>{ ...step, ...updates }\<close>.\<close>

definition merge_step :: "WorkflowStep \<Rightarrow> StepUpdates \<Rightarrow> WorkflowStep" where
  "merge_step s u =
     s\<lparr> step_status := (case upd_status u of None \<Rightarrow> step_status s | Some v \<Rightarrow> v),
        step_startTime := (case upd_startTime u of None \<Rightarrow> step_startTime s | Some v \<Rightarrow> Some v),
        step_endTime := (case upd_endTime u of None \<Rightarrow> step_endTime s | Some v \<Rightarrow> Some v),
        step_duration := (case upd_duration u of None \<Rightarrow> step_duration s | Some v \<Rightarrow> Some v),
        step_error := (case upd_error u of None \<Rightarrow> step_error s | Some v \<Rightarrow> Some v),
        step_logs := (case upd_logs u of None \<Rightarrow> step_logs s | Some v \<Rightarrow> v),
        step_details := (case upd_details u of None \<Rightarrow> step_details s | Some v \<Rightarrow> v),
        step_metadata := (case upd_metadata u of None \<Rightarrow> step_metadata s | Some v \<Rightarrow> v) \<rparr>"

definition notifyUpdate :: "WorkflowJob \<Rightarrow> service \<Rightarrow> service" where
  "notifyUpdate job svc = svc\<lparr> notified := notified svc @ [job] \<rparr>"

text \<open>
  \<^verbatim>\<open>updateJobStep(jobId, stepId, updates)\<close>. The first argument is the value of
  \<^verbatim>\<open>new Date()\<close> at the call.
\<close>

definition updateJobStep ::
  "int \<Rightarrow> service \<Rightarrow> string \<Rightarrow> string \<Rightarrow> StepUpdates \<Rightarrow> service" where
  "updateJobStep now svc jobId stepId updates =
     (case jobs svc jobId of
        None \<Rightarrow> svc
      | Some job \<Rightarrow>
         (case findIndex (\<lambda>s. step_id s = stepId) (job_steps job) of
            None \<Rightarrow> svc
          | Some stepIndex \<Rightarrow>
             (let steps' = (job_steps job)
                             [stepIndex := merge_step (job_steps job ! stepIndex) updates];
                  job1 = job\<lparr> job_steps := steps' \<rparr>;
                  job2 =
                    (if upd_status updates = Some Failed
                     then job1\<lparr> job_status := Failed, job_endTime := Some now \<rparr>
                     else if list_all (\<lambda>s. step_status s = Completed) steps'
                     then job1\<lparr> job_status := Completed, job_endTime := Some now \<rparr>
                     else if list_ex (\<lambda>s. step_status s = Running) steps'
                     then job1\<lparr> job_status := Running \<rparr>
                     else job1)
              in notifyUpdate job2 (svc\<lparr> jobs := (jobs svc)(jobId \<mapsto> job2) \<rparr>))))"

text \<open>
  The status derivation as the specification words it: a function of the steps alone.
\<close>

definition spec_job_status :: "WorkflowStep list \<Rightarrow> status" where
  "spec_job_status ss =
     (if list_ex (\<lambda>s. step_status s = Failed) ss then Failed
      else if list_all (\<lambda>s. step_status s = Completed) ss then Completed
      else if list_ex (\<lambda>s. step_status s = Running) ss then Running
      else Pending)"

text \<open>
  A fresh step as \<^verbatim>\<open>startPDFProcessing\<close> creates it, and the job it registers:
  the job starts in status \<^verbatim>\<open>running\<close> while all its steps are \<^verbatim>\<open>pending\<close>.
\<close>

definition new_step :: "string \<Rightarrow> string \<Rightarrow> string \<Rightarrow> WorkflowStep" where
  "new_step i n d =
     \<lparr> step_id = i, step_name = n, step_description = d, step_status = Pending,
       step_startTime = None, step_endTime = None, step_duration = None,
       step_error = None, step_logs = [], step_details = [], step_metadata = [] \<rparr>"

definition pipeline_steps :: "WorkflowStep list" where
  "pipeline_steps =
     [ new_step ''auth'' ''Authentication'' ''Verify user authentication and permissions'',
       new_step ''upload'' ''File Upload'' ''Upload PDF to secure storage bucket'',
       new_step ''validation'' ''File Validation''
         ''Validate PDF structure and content accessibility'',
       new_step ''convertapi-conversion'' ''PDF to HTML Conversion''
         ''Convert PDF to HTML using ConvertAPI with embedded CSS'',
       new_step ''html-extraction'' ''HTML Content Extraction''
         ''Extract and decode HTML content from ConvertAPI response'',
       new_step ''image-discovery'' ''Image URL Discovery''
         ''Extract image URLs from HTML content for local processing'',
       new_step ''image-download'' ''Local Image Download''
         ''Download images to Supabase storage and generate local URLs'',
       new_step ''html-finalization'' ''HTML Content Finalization''
         ''Replace external image URLs with local URLs and store final HTML'',
       new_step ''layout-analysis'' ''Layout Analysis''
         ''Analyze document structure and extract layout elements'',
       new_step ''image-processing'' ''Image Processing''
         ''Extract and process document images with metadata'',
       new_step ''embedding-generation'' ''Embedding Generation''
         ''Generate vector embeddings using OpenAI text-embedding-3-small'',
       new_step ''knowledge-storage'' ''Knowledge Base Storage''
         ''Store document in enhanced knowledge base with metadata'',
       new_step ''indexing'' ''Search Indexing''
         ''Index document for semantic and full-text search'',
       new_step ''quality-metrics'' ''Quality Assessment''
         ''Calculate processing quality and confidence metrics'' ]"

definition startPDFProcessing :: "int \<Rightarrow> string \<Rightarrow> string \<Rightarrow> service \<Rightarrow> service" where
  "startPDFProcessing now jobId filename svc =
     (let job = \<lparr> job_id = jobId, job_name = ''PDF Processing Pipeline'',
                  job_filename = filename, job_status = Running, job_startTime = now,
                  job_endTime = None, job_steps = pipeline_steps \<rparr>
      in notifyUpdate job (svc\<lparr> jobs := (jobs svc)(jobId \<mapsto> job) \<rparr>))"

text \<open>
  The three transitions \<^verbatim>\<open>executeStep\<close> makes: the step is marked running, and then
  completed or failed according to how its executor ends. \<open>t0\<close> and \<open>t\<close> are the two
  readings of the clock; the details, metadata and log lines of a completed step are
  what its executor returned.
\<close>

definition no_updates :: StepUpdates where
  "no_updates =
     \<lparr> upd_status = None, upd_startTime = None, upd_endTime = None, upd_duration = None,
       upd_error = None, upd_logs = None, upd_details = None, upd_metadata = None \<rparr>"

definition mark_running :: "int \<Rightarrow> string \<Rightarrow> string \<Rightarrow> service \<Rightarrow> service" where
  "mark_running t0 jobId stepId svc =
     updateJobStep t0 svc jobId stepId
       (no_updates\<lparr> upd_status := Some Running, upd_startTime := Some t0,
                    upd_logs := Some [''Started''] \<rparr>)"

definition mark_completed ::
  "int \<Rightarrow> int \<Rightarrow> string list \<Rightarrow> (string \<times> string) list \<Rightarrow> string list
     \<Rightarrow> string \<Rightarrow> string \<Rightarrow> service \<Rightarrow> service" where
  "mark_completed t0 t details metadata logs jobId stepId svc =
     updateJobStep t svc jobId stepId
       (no_updates\<lparr> upd_status := Some Completed, upd_endTime := Some t,
                    upd_duration := Some (t - t0), upd_details := Some details,
                    upd_metadata := Some metadata,
                    upd_logs := Some (logs @ [''Completed'']) \<rparr>)"

definition mark_failed :: "int \<Rightarrow> int \<Rightarrow> string \<Rightarrow> string \<Rightarrow> string \<Rightarrow> service \<Rightarrow> service" where
  "mark_failed t0 t msg jobId stepId svc =
     updateJobStep t svc jobId stepId
       (no_updates\<lparr> upd_status := Some Failed, upd_endTime := Some t,
                    upd_duration := Some (t - t0), upd_error := Some msg,
                    upd_logs := Some [''Failed'', ''Error: '' @ msg] \<rparr>)"

definition empty_service :: service where
  "empty_service = \<lparr> jobs = Map.empty, notified = [] \<rparr>"

text \<open>A sample service holding one job of three steps.\<close>

definition sample_step :: "string \<Rightarrow> status \<Rightarrow> WorkflowStep" where
  "sample_step i s = (new_step i i i)\<lparr> step_status := s \<rparr>"

definition sample_service :: "status \<Rightarrow> status \<Rightarrow> status \<Rightarrow> status \<Rightarrow> service" where
  "sample_service js a b c =
     \<lparr> jobs = [''job-1'' \<mapsto>
                 \<lparr> job_id = ''job-1'', job_name = ''PDF Processing Pipeline'',
                   job_filename = ''catalog.pdf'', job_status = js, job_startTime = 0,
                   job_endTime = None,
                   job_steps = [sample_step ''s1'' a, sample_step ''s2'' b,
                                sample_step ''s3'' c] \<rparr>],
       notified = [] \<rparr>"

definition set_status :: "status \<Rightarrow> StepUpdates" where
  "set_status s = no_updates\<lparr> upd_status := Some s \<rparr>"

section \<open>Provider Fallback Dispatcher: HybridAIService\<close>

subsection \<open>Raw provider results\<close>

text \<open>
  A provider call resolves to a value of type \<^verbatim>\<open>any\<close>. It is modelled as a JSON-like
  value; an object is the list of its own enumerable properties (the first binding
  of a key counts). A string is the list of its code units.
\<close>

datatype jsval =
    JUndefined
  | JNull
  | JBool bool
  | JNum real
  | JStr string
  | JArr "jsval list"
  | JObj "(string \<times> jsval) list"

text \<open>JavaScript truthiness (\<^verbatim>\<open>ToBoolean\<close>).\<close>

fun truthy :: "jsval \<Rightarrow> bool" where
  "truthy JUndefined = False"
| "truthy JNull = False"
| "truthy (JBool b) = b"
| "truthy (JNum x) = (x \<noteq> 0)"
| "truthy (JStr s) = (s \<noteq> [])"
| "truthy (JArr xs) = True"
| "truthy (JObj kvs) = True"

text \<open>
  Reading one of the properties \<^verbatim>\<open>text\<close>, \<^verbatim>\<open>raw_response\<close>, \<^verbatim>\<open>image_url\<close>,
  \<^verbatim>\<open>error\<close>, \<^verbatim>\<open>status\<close>: only an object can carry them, every other value yields
  \<^verbatim>\<open>undefined\<close>. On \<^verbatim>\<open>null\<close> and \<^verbatim>\<open>undefined\<close> the source reads them either
  behind \<^verbatim>\<open>result &&\<close> or through \<^verbatim>\<open>?.\<close>, which yields \<^verbatim>\<open>undefined\<close> as well.
\<close>

fun get_prop :: "jsval \<Rightarrow> string \<Rightarrow> jsval" where
  "get_prop (JObj kvs) k = (case map_of kvs k of None \<Rightarrow> JUndefined | Some v \<Rightarrow> v)"
| "get_prop v k = JUndefined"

text \<open>\<^verbatim>\<open>Object.keys(result).length\<close> for a truthy \<^verbatim>\<open>result\<close>.\<close>

fun keys_count :: "jsval \<Rightarrow> nat" where
  "keys_count (JObj kvs) = length (remdups (map fst kvs))"
| "keys_count (JArr xs) = length xs"
| "keys_count (JStr s) = length s"
| "keys_count v = 0"

subsection \<open>Requests, providers, responses\<close>

text \<open>
  Scores and the threshold are real numbers: a JavaScript number stands for the decimal
  it is written as, which keeps every comparison the code makes. The retry budget is
  compared with the length of the ledger and is taken as any JavaScript number, with
  the infinities and \<^verbatim>\<open>NaN\<close>. Priorities are integers, times are milliseconds.
\<close>

datatype jsnumber = Num real | PosInfinity | NegInfinity | NaN

text \<open>\<^verbatim>\<open>attempts.length >= maxRetries\<close>, for a ledger of \<open>n\<close> entries.\<close>

fun length_reaches :: "nat \<Rightarrow> jsnumber \<Rightarrow> bool" where
  "length_reaches n (Num r) = (real n \<ge> r)"
| "length_reaches n PosInfinity = False"
| "length_reaches n NegInfinity = True"
| "length_reaches n NaN = False"

datatype request_type = MaterialAnalysis | Generation3D | TextProcessing | General

record HybridRequest =
  prompt :: string
  model :: "string option"
  req_type :: request_type
  req_imageUrl :: "string option"
  maxRetries :: "jsnumber option"
  minimumScore :: "real option"

record AIProvider =
  name :: string
  priority :: int
  available :: bool

record validation =
  v_score :: real
  v_confidence :: "real option"
  v_reasoning :: "string option"
  v_issues :: "string list"
  v_suggestions :: "string list option"

record attempt =
  a_provider :: string
  a_success :: bool
  a_score :: "real option"
  a_error :: "jsval option"
  a_processing_time_ms :: int

record HybridResponse =
  r_success :: bool
  r_data :: jsval
  r_provider :: string
  r_attempts :: "attempt list"
  r_final_score :: real
  r_validation :: "validation option"
  r_total_processing_time_ms :: int

text \<open>
  The outside world of one \<^verbatim>\<open>processRequest\<close> call: what the two provider calls do
  (\<open>Inl\<close> is the value thrown, \<open>Inr\<close> the value resolved), and the successive readings
  of \<^verbatim>\<open>Date.now()\<close>. A thrown value is any value; \<open>error_object msg\<close> is
  \<^verbatim>\<open>new Error(msg)\<close>, of which only the message is read.
\<close>

record dispatch_env =
  callOpenAI :: "HybridRequest \<Rightarrow> jsval + jsval"
  callClaude :: "HybridRequest \<Rightarrow> jsval + jsval"
  clock :: "nat \<Rightarrow> int"

definition error_object :: "string \<Rightarrow> jsval" where
  "error_object msg = JObj [(''message'', JStr msg)]"

text \<open>The two calls as the class has them: both throw.\<close>

definition client_callOpenAI :: "HybridRequest \<Rightarrow> jsval + jsval" where
  "client_callOpenAI request =
     Inl (error_object ''Use callHybridAnalysis instead for client-side calls'')"

definition client_callClaude :: "HybridRequest \<Rightarrow> jsval + jsval" where
  "client_callClaude request =
     Inl (error_object ''Use callHybridAnalysis instead for client-side calls'')"

definition client_env :: "(nat \<Rightarrow> int) \<Rightarrow> dispatch_env" where
  "client_env c = \<lparr> callOpenAI = client_callOpenAI, callClaude = client_callClaude, clock = c \<rparr>"

definition PROVIDERS :: "AIProvider list" where
  "PROVIDERS =
     [ \<lparr> name = ''openai'', priority = 1, available = True \<rparr>,
       \<lparr> name = ''claude'', priority = 2, available = True \<rparr> ]"

definition DEFAULT_MIN_SCORE :: real where
  "DEFAULT_MIN_SCORE = 7 / 10"

definition DEFAULT_MAX_RETRIES :: jsnumber where
  "DEFAULT_MAX_RETRIES = Num 2"

subsection \<open>validateResponse\<close>

definition hasContent :: "jsval \<Rightarrow> bool" where
  "hasContent result \<longleftrightarrow>
     truthy result \<and>
     (truthy (get_prop result ''text'') \<or> truthy (get_prop result ''raw_response'') \<or>
      truthy (get_prop result ''image_url'') \<or> keys_count result > 0)"

definition hasError :: "jsval \<Rightarrow> bool" where
  "hasError result \<longleftrightarrow>
     truthy (get_prop result ''error'') \<or> get_prop result ''status'' = JStr ''error''"

definition validateResponse :: "jsval \<Rightarrow> HybridRequest \<Rightarrow> validation" where
  "validateResponse result request =
     \<lparr> v_score = (if hasError result then 1 / 10
                  else if hasContent result then 9 / 10 else 3 / 10),
       v_confidence = Some (if hasContent result then 8 / 10 else 2 / 10),
       v_reasoning = Some (if hasContent result then ''Response contains content''
                           else ''Response is empty or invalid''),
       v_issues = (if hasContent result then [] else [''Empty or invalid response'']),
       v_suggestions = Some (if hasContent result then []
                             else [''Retry with different parameters'']) \<rparr>"

text \<open>
  The three clauses of the scoring heuristic as the specification words them, on the
  three content fields the validator reads.
\<close>

definition spec_has_content_field :: "jsval \<Rightarrow> bool" where
  "spec_has_content_field result \<longleftrightarrow>
     truthy (get_prop result ''text'') \<or> truthy (get_prop result ''raw_response'') \<or>
     truthy (get_prop result ''image_url'')"

definition spec_has_error :: "jsval \<Rightarrow> bool" where
  "spec_has_error result \<longleftrightarrow>
     truthy (get_prop result ''error'') \<or> get_prop result ''status'' = JStr ''error''"

subsection \<open>processRequest\<close>

text \<open>
  The \<^verbatim>\<open>switch\<close> on the provider name inside the \<^verbatim>\<open>try\<close> block; the default case
  throws.
\<close>

definition invokeProvider :: "dispatch_env \<Rightarrow> string \<Rightarrow> HybridRequest \<Rightarrow> jsval + jsval" where
  "invokeProvider env n request =
     (if n = ''openai'' then callOpenAI env request
      else if n = ''claude'' then callClaude env request
      else Inl (error_object (''Unknown provider: '' @ n)))"

text \<open>
  \<^verbatim>\<open>error.message\<close> in the \<^verbatim>\<open>catch\<close> block: reading a property of \<^verbatim>\<open>null\<close> or
  \<^verbatim>\<open>undefined\<close> raises a \<^verbatim>\<open>TypeError\<close> (\<open>None\<close>), which nothing catches: the
  promise of \<^verbatim>\<open>processRequest\<close> is then rejected.
\<close>

datatype raised = TypeError

fun read_message :: "jsval \<Rightarrow> jsval option" where
  "read_message JNull = None"
| "read_message JUndefined = None"
| "read_message v = Some (get_prop v ''message'')"

text \<open>
  The variables the loop updates; \<open>ticks\<close> counts the readings of \<^verbatim>\<open>Date.now()\<close>
  made so far.
\<close>

record loop_state =
  attempts :: "attempt list"
  bestResult :: jsval
  bestScore :: real
  bestValidation :: "validation option"
  ticks :: nat

fun attempt_loop ::
  "dispatch_env \<Rightarrow> HybridRequest \<Rightarrow> real \<Rightarrow> jsnumber \<Rightarrow> AIProvider list \<Rightarrow> loop_state
     \<Rightarrow> raised + loop_state"
where
  "attempt_loop env request minScore maxR [] st = Inr st"
| "attempt_loop env request minScore maxR (provider # rest) st =
     (if length_reaches (length (attempts st)) maxR then Inr st
      else
        (let attemptStart = clock env (ticks st);
             processingTime = clock env (Suc (ticks st)) - attemptStart
         in case invokeProvider env (name provider) request of
              Inr result \<Rightarrow>
                (let v = validateResponse result request;
                     st1 = st\<lparr> attempts := attempts st @
                                  [\<lparr> a_provider = name provider, a_success = True,
                                     a_score = Some (v_score v), a_error = None,
                                     a_processing_time_ms = processingTime \<rparr>],
                               ticks := Suc (Suc (ticks st)) \<rparr>;
                     st2 = (if v_score v > bestScore st1
                            then st1\<lparr> bestResult := result, bestScore := v_score v,
                                      bestValidation := Some v \<rparr>
                            else st1)
                 in if v_score v \<ge> minScore then Inr st2
                    else attempt_loop env request minScore maxR rest st2)
            | Inl thrown \<Rightarrow>
                (case read_message thrown of
                   None \<Rightarrow> Inl TypeError
                 | Some msg \<Rightarrow>
                     attempt_loop env request minScore maxR rest
                       (st\<lparr> attempts := attempts st @
                               [\<lparr> a_provider = name provider, a_success = False,
                                  a_score = None, a_error = Some msg,
                                  a_processing_time_ms = processingTime \<rparr>],
                            ticks := Suc (Suc (ticks st)) \<rparr>))))"

definition sortedProviders :: "AIProvider list \<Rightarrow> AIProvider list" where
  "sortedProviders ps = sort_key priority (filter available ps)"

definition resolved_minimumScore :: "HybridRequest \<Rightarrow> real" where
  "resolved_minimumScore request =
     (case minimumScore request of None \<Rightarrow> DEFAULT_MIN_SCORE | Some v \<Rightarrow> v)"

definition resolved_maxRetries :: "HybridRequest \<Rightarrow> jsnumber" where
  "resolved_maxRetries request =
     (case maxRetries request of None \<Rightarrow> DEFAULT_MAX_RETRIES | Some v \<Rightarrow> v)"

definition initial_loop_state :: loop_state where
  "initial_loop_state =
     \<lparr> attempts = [], bestResult = JNull, bestScore = 0, bestValidation = None,
       ticks = 1 \<rparr>"

definition run_attempts ::
  "AIProvider list \<Rightarrow> dispatch_env \<Rightarrow> HybridRequest \<Rightarrow> raised + loop_state" where
  "run_attempts providers env request =
     attempt_loop env request (resolved_minimumScore request) (resolved_maxRetries request)
       (sortedProviders providers) initial_loop_state"

text \<open>
  \<^verbatim>\<open>processRequest(request)\<close>, for a service whose provider table is \<open>providers\<close>
  (the class constant is \<open>PROVIDERS\<close>). \<open>Inl\<close> is an error raised to the caller.
\<close>

definition processRequest ::
  "AIProvider list \<Rightarrow> dispatch_env \<Rightarrow> HybridRequest \<Rightarrow> raised + HybridResponse" where
  "processRequest providers env request =
     (let startTime = clock env 0
      in case run_attempts providers env request of
           Inl e \<Rightarrow> Inl e
         | Inr st \<Rightarrow>
            (let totalProcessingTime = clock env (ticks st) - startTime
             in if truthy (bestResult st)
                then Inr \<lparr> r_success = True,
                       r_data = bestResult st,
                       r_provider =
                         (case find (\<lambda>a. a_score a = Some (bestScore st)) (attempts st) of
                            None \<Rightarrow> ''unknown''
                          | Some a \<Rightarrow> if a_provider a = [] then ''unknown'' else a_provider a),
                       r_attempts = attempts st,
                       r_final_score = bestScore st,
                       r_validation = bestValidation st,
                       r_total_processing_time_ms = totalProcessingTime \<rparr>
                else Inr \<lparr> r_success = False,
                       r_data = JNull,
                       r_provider = ''none'',
                       r_attempts = attempts st,
                       r_final_score = 0,
                       r_validation =
                         Some \<lparr> v_score = 0, v_confidence = None, v_reasoning = None,
                                v_issues = [''All providers failed''],
                                v_suggestions = None \<rparr>,
                       r_total_processing_time_ms = totalProcessingTime \<rparr>))"

subsection \<open>Reading the ledger\<close>

text \<open>
  \<open>attempt_records env request p a\<close>: the ledger entry \<open>a\<close> is what one try of the
  provider \<open>p\<close> leaves, up to its processing time.
\<close>

definition attempt_records :: "dispatch_env \<Rightarrow> HybridRequest \<Rightarrow> AIProvider \<Rightarrow> attempt \<Rightarrow> bool" where
  "attempt_records env request p a \<longleftrightarrow>
     a_provider a = name p \<and>
     (case invokeProvider env (name p) request of
        Inr result \<Rightarrow> a_success a \<and> a_score a = Some (v_score (validateResponse result request))
                       \<and> a_error a = None
      | Inl thrown \<Rightarrow> \<not> a_success a \<and> a_score a = None \<and> a_error a = read_message thrown
                       \<and> a_error a \<noteq> None)"

text \<open>
  The loop state after the \<^verbatim>\<open>catch\<close> block has recorded a failure with the message
  \<open>msg\<close>, and after the \<^verbatim>\<open>try\<close> block has recorded and rated the result \<open>result\<close>.
\<close>

definition record_failure :: "dispatch_env \<Rightarrow> AIProvider \<Rightarrow> jsval \<Rightarrow> loop_state \<Rightarrow> loop_state" where
  "record_failure env provider msg st =
     st\<lparr> attempts := attempts st @
             [\<lparr> a_provider = name provider, a_success = False, a_score = None,
                a_error = Some msg,
                a_processing_time_ms = clock env (Suc (ticks st)) - clock env (ticks st) \<rparr>],
          ticks := Suc (Suc (ticks st)) \<rparr>"

definition record_result ::
  "dispatch_env \<Rightarrow> HybridRequest \<Rightarrow> AIProvider \<Rightarrow> jsval \<Rightarrow> loop_state \<Rightarrow> loop_state" where
  "record_result env request provider result st =
     (let v = validateResponse result request;
          st1 = st\<lparr> attempts := attempts st @
                       [\<lparr> a_provider = name provider, a_success = True,
                          a_score = Some (v_score v), a_error = None,
                          a_processing_time_ms =
                            clock env (Suc (ticks st)) - clock env (ticks st) \<rparr>],
                    ticks := Suc (Suc (ticks st)) \<rparr>
      in if v_score v > bestScore st1
         then st1\<lparr> bestResult := result, bestScore := v_score v, bestValidation := Some v \<rparr>
         else st1)"

text \<open>
  The invariant of the loop on the running best: every scored entry has a positive
  score not above \<open>bestScore\<close>; before the first scored entry the best is still the
  initial \<^verbatim>\<open>null\<close> with score 0; afterwards \<open>bestResult\<close> is the result of the first
  entry that carries \<open>bestScore\<close>.
\<close>

definition best_inv :: "dispatch_env \<Rightarrow> HybridRequest \<Rightarrow> loop_state \<Rightarrow> bool" where
  "best_inv env request st \<longleftrightarrow>
     (\<forall>a \<in> set (attempts st).
        (a_success a \<longleftrightarrow> a_score a \<noteq> None) \<and> (a_success a \<or> a_error a \<noteq> None) \<and>
        (\<forall>s. a_score a = Some s \<longrightarrow> 0 < s \<and> s \<le> bestScore st)) \<and>
     ((\<forall>a \<in> set (attempts st). a_score a = None) \<longrightarrow>
        bestResult st = JNull \<and> bestScore st = 0) \<and>
     ((\<exists>a \<in> set (attempts st). a_score a \<noteq> None) \<longrightarrow>
        (\<exists>pre a post.
           attempts st = pre @ a # post \<and>
           (\<forall>b \<in> set pre. a_score b \<noteq> Some (bestScore st)) \<and>
           a_score a = Some (bestScore st) \<and> a_success a \<and>
           invokeProvider env (a_provider a) request = Inr (bestResult st) \<and>
           bestScore st = v_score (validateResponse (bestResult st) request) \<and>
           bestValidation st = Some (validateResponse (bestResult st) request)))"

text \<open>Sample requests and provider behaviours.\<close>

definition default_request :: HybridRequest where
  "default_request =
     \<lparr> prompt = ''Identify this material'', model = None, req_type = MaterialAnalysis,
       req_imageUrl = None, maxRetries = None, minimumScore = None \<rparr>"

definition steady_clock :: "nat \<Rightarrow> int" where
  "steady_clock n = 1000 + 10 * int n"

definition env_openai_answers :: dispatch_env where
  "env_openai_answers =
     \<lparr> callOpenAI = (\<lambda>request. Inr (JObj [(''text'', JStr ''oak wood'')])),
       callClaude = (\<lambda>request. Inr (JObj [(''text'', JStr ''pine wood'')])),
       clock = steady_clock \<rparr>"

definition env_openai_down :: dispatch_env where
  "env_openai_down =
     \<lparr> callOpenAI = (\<lambda>request. Inl (error_object ''timeout'')),
       callClaude = (\<lambda>request. Inr (JObj [(''text'', JStr ''pine wood'')])),
       clock = steady_clock \<rparr>"

definition env_openai_error_payload :: dispatch_env where
  "env_openai_error_payload =
     \<lparr> callOpenAI = (\<lambda>request. Inr (JObj [(''error'', JStr ''rate limited'')])),
       callClaude = (\<lambda>request. Inl (error_object ''timeout'')),
       clock = steady_clock \<rparr>"

text \<open>A non-empty object, array or string.\<close>

fun nonempty_value :: "jsval \<Rightarrow> bool" where
  "nonempty_value (JObj kvs) = (kvs \<noteq> [])"
| "nonempty_value (JArr xs) = (xs \<noteq> [])"
| "nonempty_value (JStr s) = (s \<noteq> [])"
| "nonempty_value v = False"

definition one_retry_request :: HybridRequest where
  "one_retry_request = default_request\<lparr> maxRetries := Some (Num 1) \<rparr>"

definition fractional_retry_request :: HybridRequest where
  "fractional_retry_request = default_request\<lparr> maxRetries := Some (Num (3 / 2)) \<rparr>"

text \<open>
  The bound a budget puts on the length of the ledger: the least whole number that
  reaches it, and none for \<^verbatim>\<open>NaN\<close> and \<^verbatim>\<open>Infinity\<close>.
\<close>

fun budget_bound :: "jsnumber \<Rightarrow> nat option" where
  "budget_bound (Num r) = Some (nat \<lceil>r\<rceil>)"
| "budget_bound NegInfinity = Some 0"
| "budget_bound PosInfinity = None"
| "budget_bound NaN = None"

text \<open>The thrown values whose message the \<^verbatim>\<open>catch\<close> block can read.\<close>

definition throws_readable :: "dispatch_env \<Rightarrow> HybridRequest \<Rightarrow> bool" where
  "throws_readable env request \<longleftrightarrow>
     (case callOpenAI env request of Inl thrown \<Rightarrow> read_message thrown \<noteq> None | Inr r \<Rightarrow> True) \<and>
     (case callClaude env request of Inl thrown \<Rightarrow> read_message thrown \<noteq> None | Inr r \<Rightarrow> True)"

definition results_truthy :: "dispatch_env \<Rightarrow> HybridRequest \<Rightarrow> bool" where
  "results_truthy env request \<longleftrightarrow>
     (case callOpenAI env request of Inl thrown \<Rightarrow> True | Inr r \<Rightarrow> truthy r) \<and>
     (case callClaude env request of Inl thrown \<Rightarrow> True | Inr r \<Rightarrow> truthy r)"

section \<open>PDF processing pipeline: the ConvertAPI processor\<close>

subsection \<open>Text extraction\<close>

text \<open>
  A string is the list of its code units, here the characters of the Latin-1 range.
  The regular expressions of \<^verbatim>\<open>extractTextFromHTML\<close> are written out as the scans
  they perform. \<open>is_space\<close> is the class \<^verbatim>\<open>\s\<close> on this range.
\<close>

definition is_space :: "char \<Rightarrow> bool" where
  "is_space c \<longleftrightarrow>
     c = CHR 0x09 \<or> c = CHR 0x0A \<or> c = CHR 0x0B \<or> c = CHR 0x0C \<or> c = CHR 0x0D \<or>
     c = CHR '' '' \<or> c = CHR 0xA0"

text \<open>
  Matching under the flag \<^verbatim>\<open>i\<close>: against a lower-case ASCII pattern letter, a
  character matches when its ASCII lower-case form is that letter.
\<close>

definition lower :: "char \<Rightarrow> char" where
  "lower c =
     (let n = (of_char c :: nat)
      in if 65 \<le> n \<and> n \<le> 90 then char_of (n + 32) else c)"

text \<open>
  \<open>match_ci pat s\<close> matches the literal \<open>pat\<close> at the start of \<open>s\<close> and returns what
  follows; \<open>find_ci pat s\<close> does so at the first position of \<open>s\<close> where it matches.
\<close>

fun match_ci :: "string \<Rightarrow> string \<Rightarrow> string option" where
  "match_ci [] s = Some s"
| "match_ci (p # ps) [] = None"
| "match_ci (p # ps) (c # cs) = (if lower c = p then match_ci ps cs else None)"

fun find_ci :: "string \<Rightarrow> string \<Rightarrow> string option" where
  "find_ci pat [] = match_ci pat []"
| "find_ci pat (c # cs) =
     (case match_ci pat (c # cs) of
        Some rest \<Rightarrow> Some rest
      | None \<Rightarrow> find_ci pat cs)"

text \<open>
  One match of \<^verbatim>\<open>/<script[^>]*>[\s\S]*?<\/script>/i\<close> at the start of \<open>s\<close> (and of the
  same expression for \<^verbatim>\<open>style\<close>): the opening literal, then everything up to the
  first \<^verbatim>\<open>>\<close>, then everything up to the first closing literal. The result is the
  text after the match.
\<close>

definition match_block :: "string \<Rightarrow> string \<Rightarrow> string \<Rightarrow> string option" where
  "match_block open_pat close_pat s =
     (case match_ci open_pat s of
        None \<Rightarrow> None
      | Some r1 \<Rightarrow>
         (case dropWhile (\<lambda>c. c \<noteq> CHR ''>'') r1 of
            [] \<Rightarrow> None
          | g # r2 \<Rightarrow> find_ci close_pat r2))"

text \<open>
  The global replacement of such matches by the empty string: the scan resumes after
  a match, and moves one character on where there is none.
\<close>

function strip_blocks :: "string \<Rightarrow> string \<Rightarrow> string \<Rightarrow> string" where
  "strip_blocks open_pat close_pat [] = []"
| "strip_blocks open_pat close_pat (c # cs) =
     (case match_block open_pat close_pat (c # cs) of
        Some rest \<Rightarrow> strip_blocks open_pat close_pat rest
      | None \<Rightarrow> c # strip_blocks open_pat close_pat cs)"
  by pat_completeness auto
termination
proof (relation "measure (\<lambda>(open_pat, close_pat, s). length s)")
  show "wf (measure (\<lambda>(open_pat, close_pat, s). length s))" by simp
next
  fix opn cls :: string and c cs rest
  assume m: "match_block opn cls (c # cs) = Some rest"
  have mc: "match_ci p s = Some r \<Longrightarrow> length r \<le> length s" for p s r
    by (induction p s rule: match_ci.induct) (auto split: if_splits)
  have fc: "find_ci p s = Some r \<Longrightarrow> length r \<le> length s" for p s r
  proof (induction s)
    case Nil
    then show ?case using mc[of p "[]" r] by simp
  next
    case (Cons x xs)
    then show ?case using mc[of p "x # xs" r]
      by (auto split: option.splits)
  qed
  from m obtain r1 g r2 where
    r1: "match_ci opn (c # cs) = Some r1"
    and r2: "dropWhile (\<lambda>c. c \<noteq> CHR ''>'') r1 = g # r2"
    and r: "find_ci cls r2 = Some rest"
    by (auto simp: match_block_def split: option.splits list.splits)
  have "length (dropWhile (\<lambda>c. c \<noteq> CHR ''>'') r1) \<le> length r1"
    by (rule length_dropWhile_le)
  with r2 have "length r2 < length r1" by simp
  with mc[OF r1] fc[OF r] have "length rest < length (c # cs)" by simp
  then show "((opn, cls, rest), (opn, cls, c # cs))
               \<in> measure (\<lambda>(open_pat, close_pat, s). length s)" by simp
next
  fix opn cls :: string and c :: char and cs :: string
  show "((opn, cls, cs), (opn, cls, c # cs))
               \<in> measure (\<lambda>(open_pat, close_pat, s). length s)" by simp
qed

text \<open>
  \<^verbatim>\<open>text.replace(/<[^>]+>/g, ' ')\<close>: a \<^verbatim>\<open><\<close>, at least one character other than
  \<^verbatim>\<open>>\<close>, and the first \<^verbatim>\<open>>\<close> after them.
\<close>

function strip_tags :: "string \<Rightarrow> string" where
  "strip_tags [] = []"
| "strip_tags (c # cs) =
     (if c = CHR ''<'' \<and> takeWhile (\<lambda>x. x \<noteq> CHR ''>'') cs \<noteq> []
         \<and> dropWhile (\<lambda>x. x \<noteq> CHR ''>'') cs \<noteq> []
      then CHR '' '' # strip_tags (tl (dropWhile (\<lambda>x. x \<noteq> CHR ''>'') cs))
      else c # strip_tags cs)"
  by pat_completeness auto
termination
proof (relation "measure length")
  show "wf (measure length)" by simp
next
  fix c :: char and cs :: string
  have "length (tl (dropWhile (\<lambda>x. x \<noteq> CHR ''>'') cs)) \<le> length cs"
    using length_dropWhile_le[of "\<lambda>x. x \<noteq> CHR ''>''" cs] by simp
  then show "(tl (dropWhile (\<lambda>x. x \<noteq> CHR ''>'') cs), c # cs) \<in> measure length" by simp
next
  fix c :: char and cs :: string
  show "(cs, c # cs) \<in> measure length" by simp
qed

text \<open>
  The global replacement of a literal, non-empty pattern (an entity here, a regular
  expression built from an escaped URL further down).
\<close>

function replace_all :: "string \<Rightarrow> string \<Rightarrow> string \<Rightarrow> string" where
  "replace_all pat rep [] = []"
| "replace_all pat rep (c # cs) =
     (if pat \<noteq> [] \<and> take (length pat) (c # cs) = pat
      then rep @ replace_all pat rep (drop (length pat) (c # cs))
      else c # replace_all pat rep cs)"
  by pat_completeness auto
termination
proof (relation "measure (\<lambda>(pat, rep, s). length s)")
  show "wf (measure (\<lambda>(pat, rep, s). length s))" by simp
next
  fix pat rep :: string and c :: char and cs :: string
  assume "pat \<noteq> [] \<and> take (length pat) (c # cs) = pat"
  then have "0 < length pat" by simp
  then show "((pat, rep, drop (length pat) (c # cs)), (pat, rep, c # cs))
               \<in> measure (\<lambda>(pat, rep, s). length s)" by simp
next
  fix pat rep :: string and c :: char and cs :: string
  show "((pat, rep, cs), (pat, rep, c # cs)) \<in> measure (\<lambda>(pat, rep, s). length s)" by simp
qed

text \<open>\<^verbatim>\<open>text.replace(/\s+/g, ' ')\<close> and \<^verbatim>\<open>trim()\<close>.\<close>

function collapse_ws :: "string \<Rightarrow> string" where
  "collapse_ws [] = []"
| "collapse_ws (c # cs) =
     (if is_space c then CHR '' '' # collapse_ws (dropWhile is_space cs)
      else c # collapse_ws cs)"
  by pat_completeness auto
termination
proof (relation "measure length")
  show "wf (measure length)" by simp
next
  fix c :: char and cs :: string
  show "(dropWhile is_space cs, c # cs) \<in> measure length"
    using length_dropWhile_le[of is_space cs] by simp
next
  fix c :: char and cs :: string
  show "(cs, c # cs) \<in> measure length" by simp
qed

definition trim :: "string \<Rightarrow> string" where
  "trim s = rev (dropWhile is_space (rev (dropWhile is_space s)))"

definition decode_entities :: "string \<Rightarrow> string" where
  "decode_entities t0 =
     (let t1 = replace_all ''&nbsp;'' '' '' t0;
          t2 = replace_all ''&amp;'' ''&'' t1;
          t3 = replace_all ''&lt;'' ''<'' t2;
          t4 = replace_all ''&gt;'' ''>'' t3;
          t5 = replace_all ''&quot;'' [CHR 0x22] t4;
          t6 = replace_all ''&#39;'' [CHR 0x27] t5
      in t6)"

text \<open>
  The value of \<^verbatim>\<open>text\<close> before the final \<^verbatim>\<open>substring(0, 8000)\<close>, and the function
  itself.
\<close>

definition clean_text :: "string \<Rightarrow> string" where
  "clean_text html =
     (let t1 = strip_blocks ''<script'' ''</script>'' html;
          t2 = strip_blocks ''<style'' ''</style>'' t1;
          t3 = strip_tags t2;
          t4 = decode_entities t3;
          t5 = trim (collapse_ws t4)
      in t5)"

definition extractTextFromHTML :: "string \<Rightarrow> string" where
  "extractTextFromHTML html = take 8000 (clean_text html)"




subsection \<open>Image relocation and the knowledge entry\<close>

text \<open>\<^verbatim>\<open>String.prototype.split\<close> with a one-character separator.\<close>

fun split_on :: "char \<Rightarrow> string \<Rightarrow> string list" where
  "split_on sep [] = [] # []"
| "split_on sep (c # cs) =
     (if c = sep then [] # split_on sep cs
      else (case split_on sep cs of
              [] \<Rightarrow> [c] # []
            | w # ws \<Rightarrow> (c # w) # ws))"

text \<open>The decimal rendering of a number in a template string.\<close>

fun show_nat :: "nat \<Rightarrow> string" where
  "show_nat n =
     (if n < 10 then [char_of (48 + n)]
      else show_nat (n div 10) @ [char_of (48 + n mod 10)])"

declare show_nat.simps [simp del]

definition starts_with :: "string \<Rightarrow> string \<Rightarrow> bool" where
  "starts_with pre s \<longleftrightarrow> take (length pre) s = pre"

text \<open>
  The records of the processor. \<^verbatim>\<open>ProcessedImage.size\<close> is \<open>img_size\<close>; the fields
  of a relocated base64 image and of a discovered one carry a prefix.
\<close>

record ProcessedImage =
  originalUrl :: string
  supabaseUrl :: string
  filename :: string
  img_size :: nat

record ProcessedBase64 =
  originalSrc :: string
  b64_supabaseUrl :: string
  b64_filename :: string

record Base64Image =
  b64_src :: string
  b64_data :: string
  b64_type :: string

text \<open>
  What \<^verbatim>\<open>fetch\<close> resolves to: the \<^verbatim>\<open>ok\<close> flag, the status, the
  \<^verbatim>\<open>content-type\<close> header, and the outcome of \<^verbatim>\<open>response.blob()\<close>: \<open>Inl\<close> when
  reading the body throws, \<open>Inr n\<close> for a blob of \<open>n\<close> bytes.
\<close>

record http_response =
  resp_ok :: bool
  resp_status :: nat
  resp_content_type :: "string option"
  resp_blob :: "string + nat"

text \<open>The row inserted into the knowledge base, with the fields the pipeline computes.\<close>

record confidence_scores =
  conversion :: real
  text_extraction :: real
  image_processing :: real
  overall :: real

record storage_info =
  html_storage_url :: string
  images_processed :: nat
  images_found :: nat
  base64_images_processed :: nat
  base64_images_found :: nat

record knowledgeEntry =
  ke_title :: string
  ke_content :: string
  ke_content_type :: string
  ke_source_url :: string
  ke_language :: string
  ke_openai_embedding :: "real list option"
  ke_confidence_scores :: confidence_scores
  ke_search_keywords :: "string list"
  ke_storage_info :: storage_info
  ke_processed_images :: "ProcessedImage list"
  ke_text_preview :: string
  ke_created_by :: string
  ke_status :: string

text \<open>
  The outside world of one run. A call that can throw returns \<open>Inl\<close> with the message.
  \<open>storage_upload bucket path\<close> is \<open>Inr None\<close> on success and \<open>Inr (Some err)\<close> when
  the storage client reports an error; \<open>atob\<close> gives the number of bytes decoded;
  \<open>date_now k\<close> is reading number \<open>k\<close> of \<^verbatim>\<open>Date.now()\<close>; \<open>knowledge_insert\<close> is
  the error of the insert, if any.
\<close>

record pipeline_env =
  fetch_image :: "string \<Rightarrow> string + http_response"
  storage_upload :: "string \<Rightarrow> string \<Rightarrow> string + string option"
  storage_publicUrl :: "string \<Rightarrow> string \<Rightarrow> string"
  atob :: "string \<Rightarrow> string + nat"
  date_now :: "nat \<Rightarrow> nat"
  openaiApiKey :: "string option"
  embeddings_api :: "string \<Rightarrow> string + real list"
  knowledge_insert :: "knowledgeEntry \<Rightarrow> string option"

text \<open>
  The console lines of the image functions, with the image number they print
  (\<^verbatim>\<open>index + 1\<close> for a downloaded image, \<^verbatim>\<open>index\<close> for a base64 image).
\<close>

datatype event =
    Downloading nat string
  | DownloadFailed nat nat
  | InvalidContentType nat "string option"
  | TooLarge nat nat
  | UploadFailed nat string
  | Stored nat
  | ProcessingError nat string
  | Base64UploadFailed nat string
  | Base64Converted nat string
  | Base64ProcessingError nat string
  | HtmlUploadFailed string

text \<open>
  The state a run threads: the console, the number of clock readings made, and the
  uploads attempted (bucket and path).
\<close>

record world =
  w_log :: "event list"
  w_ticks :: nat
  w_uploads :: "(string \<times> string) list"

definition log_event :: "event \<Rightarrow> world \<Rightarrow> world" where
  "log_event e w = w\<lparr> w_log := w_log w @ [e] \<rparr>"

definition MAX_IMAGE_BYTES :: nat where
  "MAX_IMAGE_BYTES = 5 * 1024 * 1024"

text \<open>
  The body of the \<^verbatim>\<open>try\<close> block of \<^verbatim>\<open>downloadAndStoreImage\<close>: \<open>Inl\<close> is a
  thrown error, \<open>Inr None\<close> a \<^verbatim>\<open>return null\<close>. The function itself adds the
  \<^verbatim>\<open>catch\<close>, which logs and returns \<^verbatim>\<open>null\<close>.
\<close>

definition downloadAndStoreImage_try ::
  "pipeline_env \<Rightarrow> string \<Rightarrow> string \<Rightarrow> nat \<Rightarrow> world \<Rightarrow> (string + ProcessedImage option) \<times> world"
where
  "downloadAndStoreImage_try env imageUrl userId index w0 =
     (let w1 = log_event (Downloading (index + 1) imageUrl) w0
      in case fetch_image env imageUrl of
           Inl thrown \<Rightarrow> (Inl thrown, w1)
         | Inr response \<Rightarrow>
            if \<not> resp_ok response
            then (Inr None, log_event (DownloadFailed (index + 1) (resp_status response)) w1)
            else
              (case resp_content_type response of
                 None \<Rightarrow> (Inr None, log_event (InvalidContentType (index + 1) None) w1)
               | Some contentType \<Rightarrow>
                  if \<not> starts_with ''image/'' contentType
                  then (Inr None,
                        log_event (InvalidContentType (index + 1) (Some contentType)) w1)
                  else
                    (case resp_blob response of
                       Inl thrown \<Rightarrow> (Inl thrown, w1)
                     | Inr blob_size \<Rightarrow>
                        if blob_size > MAX_IMAGE_BYTES
                        then (Inr None, log_event (TooLarge (index + 1) blob_size) w1)
                        else
                          (let extension =
                                 (case split_on CHR ''/'' contentType of
                                    a # b # rest \<Rightarrow> if b = [] then ''jpg'' else b
                                  | _ \<Rightarrow> ''jpg'');
                               fname = ''pdf-image-'' @ show_nat (index + 1) @ ''-''
                                       @ show_nat (date_now env (w_ticks w1)) @ ''.''
                                       @ extension;
                               storagePath = userId @ ''/pdf-images/'' @ fname;
                               w2 = w1\<lparr> w_ticks := Suc (w_ticks w1),
                                         w_uploads := w_uploads w1
                                           @ [(''material-images'', storagePath)] \<rparr>
                           in case storage_upload env ''material-images'' storagePath of
                                Inl thrown \<Rightarrow> (Inl thrown, w2)
                              | Inr (Some err) \<Rightarrow>
                                  (Inr None, log_event (UploadFailed (index + 1) err) w2)
                              | Inr None \<Rightarrow>
                                  (Inr (Some \<lparr> originalUrl = imageUrl,
                                               supabaseUrl =
                                                 storage_publicUrl env ''material-images''
                                                   storagePath,
                                               filename = fname,
                                               img_size = blob_size \<rparr>),
                                   log_event (Stored (index + 1)) w2)))))"

definition downloadAndStoreImage ::
  "pipeline_env \<Rightarrow> string \<Rightarrow> string \<Rightarrow> nat \<Rightarrow> world \<Rightarrow> ProcessedImage option \<times> world"
where
  "downloadAndStoreImage env imageUrl userId index w =
     (case downloadAndStoreImage_try env imageUrl userId index w of
        (Inr r, w') \<Rightarrow> (r, w')
      | (Inl thrown, w') \<Rightarrow> (None, log_event (ProcessingError (index + 1) thrown) w'))"

text \<open>\<^verbatim>\<open>processBase64Image\<close>, in the same way.\<close>

definition processBase64Image_try ::
  "pipeline_env \<Rightarrow> string \<Rightarrow> string \<Rightarrow> string \<Rightarrow> nat \<Rightarrow> world
     \<Rightarrow> (string + ProcessedBase64 option) \<times> world"
where
  "processBase64Image_try env base64Data imageType userId index w0 =
     (case atob env base64Data of
        Inl thrown \<Rightarrow> (Inl thrown, w0)
      | Inr byte_count \<Rightarrow>
         (let fname = ''base64-image-'' @ show_nat index @ ''-''
                      @ show_nat (date_now env (w_ticks w0)) @ ''.'' @ imageType;
              storagePath = userId @ ''/pdf-images/'' @ fname;
              w1 = w0\<lparr> w_ticks := Suc (w_ticks w0),
                        w_uploads := w_uploads w0 @ [(''pdf-documents'', storagePath)] \<rparr>
          in case storage_upload env ''pdf-documents'' storagePath of
               Inl thrown \<Rightarrow> (Inl thrown, w1)
             | Inr (Some err) \<Rightarrow> (Inr None, log_event (Base64UploadFailed index err) w1)
             | Inr None \<Rightarrow>
                 (let publicUrl = storage_publicUrl env ''pdf-documents'' storagePath
                  in (Inr (Some \<lparr> originalSrc = ''data:image/'' @ imageType @ '';base64,''
                                                 @ base64Data,
                                   b64_supabaseUrl = publicUrl,
                                   b64_filename = fname \<rparr>),
                      log_event (Base64Converted index publicUrl) w1))))"

definition processBase64Image ::
  "pipeline_env \<Rightarrow> string \<Rightarrow> string \<Rightarrow> string \<Rightarrow> nat \<Rightarrow> world
     \<Rightarrow> ProcessedBase64 option \<times> world"
where
  "processBase64Image env base64Data imageType userId index w =
     (case processBase64Image_try env base64Data imageType userId index w of
        (Inr r, w') \<Rightarrow> (r, w')
      | (Inl thrown, w') \<Rightarrow> (None, log_event (Base64ProcessingError index thrown) w'))"

text \<open>
  The two loops of step 3, over the discovered references, from index \<open>i\<close> on. The
  pause of 100 ms after each image has no effect on the values.
\<close>

fun http_image_loop ::
  "pipeline_env \<Rightarrow> string \<Rightarrow> string list \<Rightarrow> nat \<Rightarrow> ProcessedImage list \<Rightarrow> world
     \<Rightarrow> ProcessedImage list \<times> world"
where
  "http_image_loop env userId [] i processedImages w = (processedImages, w)"
| "http_image_loop env userId (imageUrl # rest) i processedImages w =
     (case downloadAndStoreImage env imageUrl userId i w of
        (Some processedImage, w') \<Rightarrow>
          http_image_loop env userId rest (Suc i) (processedImages @ [processedImage]) w'
      | (None, w') \<Rightarrow> http_image_loop env userId rest (Suc i) processedImages w')"

fun base64_image_loop ::
  "pipeline_env \<Rightarrow> string \<Rightarrow> Base64Image list \<Rightarrow> nat \<Rightarrow> ProcessedBase64 list \<Rightarrow> world
     \<Rightarrow> ProcessedBase64 list \<times> world"
where
  "base64_image_loop env userId [] i processedBase64Images w = (processedBase64Images, w)"
| "base64_image_loop env userId (base64Image # rest) i processedBase64Images w =
     (case processBase64Image env (b64_data base64Image) (b64_type base64Image) userId i w of
        (Some processedBase64, w') \<Rightarrow>
          base64_image_loop env userId rest (Suc i)
            (processedBase64Images @ [processedBase64]) w'
      | (None, w') \<Rightarrow> base64_image_loop env userId rest (Suc i) processedBase64Images w')"

text \<open>
  Step 4: every relocated reference is replaced throughout the document. The pattern
  is the escaped reference, so the match is literal; the new URL is taken to hold no
  \<^verbatim>\<open>$\<close> replacement pattern. The warning about base64 references still present
  afterwards only writes to the console and is left out.
\<close>

fun replaceImageUrls :: "string \<Rightarrow> ProcessedImage list \<Rightarrow> string" where
  "replaceImageUrls html [] = html"
| "replaceImageUrls html (img # rest) =
     replaceImageUrls (replace_all (originalUrl img) (supabaseUrl img) html) rest"

fun replaceBase64Sources :: "string \<Rightarrow> ProcessedBase64 list \<Rightarrow> string" where
  "replaceBase64Sources html [] = html"
| "replaceBase64Sources html (base64Image # rest) =
     replaceBase64Sources
       (replace_all (originalSrc base64Image) (b64_supabaseUrl base64Image) html) rest"

text \<open>\<^verbatim>\<open>String.prototype.replace\<close> with a string pattern: the first occurrence.\<close>

fun replace_first :: "string \<Rightarrow> string \<Rightarrow> string \<Rightarrow> string" where
  "replace_first pat rep [] = (if pat = [] then rep else [])"
| "replace_first pat rep (c # cs) =
     (if take (length pat) (c # cs) = pat then rep @ drop (length pat) (c # cs)
      else c # replace_first pat rep cs)"

definition generateEmbedding :: "pipeline_env \<Rightarrow> string \<Rightarrow> real list" where
  "generateEmbedding env input =
     (case openaiApiKey env of
        None \<Rightarrow> []
      | Some key \<Rightarrow>
         (case embeddings_api env (take 4000 input) of
            Inl thrown \<Rightarrow> []
          | Inr embedding \<Rightarrow> embedding))"

text \<open>The computed fields of \<^verbatim>\<open>knowledgeEntry\<close>.\<close>

definition search_keywords :: "string \<Rightarrow> string list" where
  "search_keywords extractedText =
     take 15 (filter (\<lambda>word. length word > 3) (split_on CHR '' '' extractedText))"

definition confidence_of :: "ProcessedImage list \<Rightarrow> confidence_scores" where
  "confidence_of processedImages =
     \<lparr> conversion = 9 / 10,
       text_extraction = 85 / 100,
       image_processing = (if length processedImages > 0 then 8 / 10 else 0),
       overall = 87 / 100 \<rparr>"

definition maxContentSize :: nat where
  "maxContentSize = 1024 * 1024"

definition build_knowledgeEntry ::
  "string \<Rightarrow> string \<Rightarrow> string option \<Rightarrow> string \<Rightarrow> string \<Rightarrow> string \<Rightarrow> real list
     \<Rightarrow> string list \<Rightarrow> Base64Image list \<Rightarrow> ProcessedImage list \<Rightarrow> ProcessedBase64 list
     \<Rightarrow> knowledgeEntry"
where
  "build_knowledgeEntry originalFilename userId language finalHtmlContent htmlPublicUrl
       extractedText embedding imageUrls base64Images processedImages processedBase64Images =
     (let contentToStore =
            (if length finalHtmlContent > maxContentSize
             then take maxContentSize finalHtmlContent
                  @ [CHR 0x0A] @ ''<!-- Content truncated due to size -->''
             else finalHtmlContent)
      in \<lparr> ke_title = replace_first ''.pdf'' [] originalFilename @ '' - HTML Document'',
           ke_content = contentToStore,
           ke_content_type = ''enhanced_pdf_html'',
           ke_source_url = htmlPublicUrl,
           ke_language = (case language of None \<Rightarrow> ''en''
                          | Some l \<Rightarrow> if l = [] then ''en'' else l),
           ke_openai_embedding = (if length embedding > 0 then Some embedding else None),
           ke_confidence_scores = confidence_of processedImages,
           ke_search_keywords = search_keywords extractedText,
           ke_storage_info =
             \<lparr> html_storage_url = htmlPublicUrl,
               images_processed = length processedImages,
               images_found = length imageUrls,
               base64_images_processed = length processedBase64Images,
               base64_images_found = length base64Images \<rparr>,
           ke_processed_images = processedImages,
           ke_text_preview = take 500 extractedText,
           ke_created_by = userId,
           ke_status = ''published'' \<rparr>)"

text \<open>
  Steps 3 to 6 of the request handler, from the HTML obtained in step 2 and the
  references discovered in it, to the insert of the knowledge entry. \<open>Inl\<close> is an
  error thrown to the handler's outer \<^verbatim>\<open>catch\<close>, which marks the run failed.
\<close>

definition process_document ::
  "pipeline_env \<Rightarrow> string \<Rightarrow> string \<Rightarrow> string option \<Rightarrow> string \<Rightarrow> string list
     \<Rightarrow> Base64Image list \<Rightarrow> world \<Rightarrow> (string + knowledgeEntry) \<times> world"
where
  "process_document env userId originalFilename language htmlContent imageUrls base64Images w0 =
     (case http_image_loop env userId imageUrls 0 [] w0 of
        (processedImages, w1) \<Rightarrow>
     (case base64_image_loop env userId base64Images 0 [] w1 of
        (processedBase64Images, w2) \<Rightarrow>
     (let finalHtmlContent =
            replaceBase64Sources (replaceImageUrls htmlContent processedImages)
              processedBase64Images;
          htmlStoragePath = userId @ ''/pdf-html/'' @ replace_first ''.pdf'' [] originalFilename
                            @ ''-'' @ show_nat (date_now env (w_ticks w2)) @ ''.html'';
          w3 = w2\<lparr> w_ticks := Suc (w_ticks w2),
                    w_uploads := w_uploads w2 @ [(''pdf-documents'', htmlStoragePath)] \<rparr>
      in case storage_upload env ''pdf-documents'' htmlStoragePath of
           Inl thrown \<Rightarrow> (Inl thrown, w3)
         | Inr htmlUploadError \<Rightarrow>
            (let w4 = (case htmlUploadError of
                         Some err \<Rightarrow> log_event (HtmlUploadFailed err) w3
                       | None \<Rightarrow> w3);
                 htmlPublicUrl = storage_publicUrl env ''pdf-documents'' htmlStoragePath;
                 extractedText = extractTextFromHTML finalHtmlContent;
                 embedding = generateEmbedding env extractedText;
                 entry = build_knowledgeEntry originalFilename userId language
                           finalHtmlContent htmlPublicUrl extractedText embedding imageUrls
                           base64Images processedImages processedBase64Images
             in case knowledge_insert env entry of
                  Some err \<Rightarrow>
                    (Inl (''Failed to add document to knowledge base: '' @ err), w4)
                | None \<Rightarrow> (Inr entry, w4)))))"

text \<open>Sample runs.\<close>

definition start_world :: world where
  "start_world = \<lparr> w_log = [], w_ticks = 0, w_uploads = [] \<rparr>"

definition healthy_env :: pipeline_env where
  "healthy_env =
     \<lparr> fetch_image = (\<lambda>url. Inr \<lparr> resp_ok = True, resp_status = 200,
                                   resp_content_type = Some ''image/png'',
                                   resp_blob = Inr 2048 \<rparr>),
       storage_upload = (\<lambda>bucket path. Inr None),
       storage_publicUrl = (\<lambda>bucket path. ''https://storage.example/'' @ bucket @ ''/'' @ path),
       atob = (\<lambda>payload. Inr (3 * (length payload div 4))),
       date_now = (\<lambda>k. 1700 + k),
       openaiApiKey = None,
       embeddings_api = (\<lambda>text. Inl ''unreachable''),
       knowledge_insert = (\<lambda>entry. None) \<rparr>"

definition inline_png :: Base64Image where
  "inline_png =
     \<lparr> b64_src = ''data:image/png;base64,iVBORw0KGgo='', b64_data = ''iVBORw0KGgo='',
       b64_type = ''png'' \<rparr>"

definition inline_only_html :: string where
  "inline_only_html = ''<p>Oak flooring sample</p><img src=\"data:image/png;base64,iVBORw0KGgo=\">''"




definition is_image_response :: "http_response \<Rightarrow> bool" where
  "is_image_response response \<longleftrightarrow>
     (case resp_content_type response of
        None \<Rightarrow> False
      | Some contentType \<Rightarrow> starts_with ''image/'' contentType)"

definition env_with_blob :: "nat \<Rightarrow> pipeline_env" where
  "env_with_blob n =
     healthy_env\<lparr> fetch_image :=
       (\<lambda>url. Inr \<lparr> resp_ok = True, resp_status = 200,
                     resp_content_type = Some ''image/png'', resp_blob = Inr n \<rparr>) \<rparr>"




section \<open>Properties of the Workflow Observer\<close>

lemma findIndex_Some: "findIndex P xs = Some i \<Longrightarrow> i < length xs \<and> P (xs ! i)"
proof (induction xs arbitrary: i)
  case Nil then show ?case by simp
next
  case (Cons x xs)
  then show ?case by (cases "P x") auto
qed

lemma merge_step_status:
  "step_status (merge_step s u) = (case upd_status u of None \<Rightarrow> step_status s | Some v \<Rightarrow> v)"
  by (simp add: merge_step_def)

text \<open>
  What one call of \<^verbatim>\<open>updateJobStep\<close> on an existing job and step leaves: the step
  merged with the updates, and a job status decided by the update and the new steps.
\<close>

lemma updateJobStep_found:
  assumes "jobs svc jobId = Some job"
    and "findIndex (\<lambda>s. step_id s = stepId) (job_steps job) = Some i"
  shows "\<exists>job'. jobs (updateJobStep now svc jobId stepId u) jobId = Some job'
      \<and> job_steps job' = (job_steps job)[i := merge_step (job_steps job ! i) u]
      \<and> job_status job' =
          (if upd_status u = Some Failed then Failed
           else if list_all (\<lambda>s. step_status s = Completed) (job_steps job') then Completed
           else if list_ex (\<lambda>s. step_status s = Running) (job_steps job') then Running
           else job_status job)"
  using assms by (simp add: updateJobStep_def notifyUpdate_def Let_def)

text \<open>
  Claim C1, as the code has it. After \<^verbatim>\<open>updateJobStep\<close> on a job none of whose steps
  had failed before, the job status is \<^verbatim>\<open>failed\<close> if a step is failed, \<^verbatim>\<open>completed\<close>
  if all steps are completed, \<^verbatim>\<open>running\<close> if a step is running; when none of the
  three holds the status is left as it was, and is not set to \<^verbatim>\<open>pending\<close>.
\<close>

theorem updateJobStep_status:
  assumes "jobs svc jobId = Some job"
    and "findIndex (\<lambda>s. step_id s = stepId) (job_steps job) = Some i"
    and "\<forall>s \<in> set (job_steps job). step_status s \<noteq> Failed"
  shows "\<exists>job'. jobs (updateJobStep now svc jobId stepId u) jobId = Some job'
      \<and> job_status job' =
          (if spec_job_status (job_steps job') = Pending then job_status job
           else spec_job_status (job_steps job'))"
proof -
  from updateJobStep_found[OF assms(1,2), of now u] obtain job' where
    j: "jobs (updateJobStep now svc jobId stepId u) jobId = Some job'"
    and st: "job_steps job' = (job_steps job)[i := merge_step (job_steps job ! i) u]"
    and js: "job_status job' =
          (if upd_status u = Some Failed then Failed
           else if list_all (\<lambda>s. step_status s = Completed) (job_steps job') then Completed
           else if list_ex (\<lambda>s. step_status s = Running) (job_steps job') then Running
           else job_status job)" by blast
  have il: "i < length (job_steps job)" using findIndex_Some[OF assms(2)] by simp
  have failed_iff: "list_ex (\<lambda>s. step_status s = Failed) (job_steps job') \<longleftrightarrow> upd_status u = Some Failed"
  proof
    assume "list_ex (\<lambda>s. step_status s = Failed) (job_steps job')"
    then obtain s where s: "s \<in> set (job_steps job')" "step_status s = Failed"
      by (auto simp: list_ex_iff)
    from s(1) st have "s = merge_step (job_steps job ! i) u \<or> s \<in> set (job_steps job)"
      using set_update_subset_insert by fastforce
    with s(2) assms(3) have "step_status (merge_step (job_steps job ! i) u) = Failed" by auto
    moreover have "step_status (job_steps job ! i) \<noteq> Failed" using assms(3) il by simp
    ultimately show "upd_status u = Some Failed"
      by (auto simp: merge_step_status split: option.splits)
  next
    assume "upd_status u = Some Failed"
    then have "step_status (merge_step (job_steps job ! i) u) = Failed"
      by (simp add: merge_step_status)
    moreover have "merge_step (job_steps job ! i) u \<in> set (job_steps job')"
      using st il by (simp add: set_update_memI)
    ultimately show "list_ex (\<lambda>s. step_status s = Failed) (job_steps job')"
      by (auto simp: list_ex_iff)
  qed
  show ?thesis using j js failed_iff by (auto simp: spec_job_status_def)
qed

text \<open>
  The three derivations the specification lists, each reached by one transition:
  steps completed, completed, failed give \<^verbatim>\<open>failed\<close>; three completed steps give
  \<^verbatim>\<open>completed\<close>; completed, running, pending give \<^verbatim>\<open>running\<close>.
\<close>

theorem updateJobStep_status_witness:
  "map_option job_status
     (jobs (updateJobStep 9 (sample_service Running Completed Completed Running)
              ''job-1'' ''s3'' (set_status Failed)) ''job-1'') = Some Failed
   \<and> map_option job_status
     (jobs (updateJobStep 9 (sample_service Running Completed Completed Running)
              ''job-1'' ''s3'' (set_status Completed)) ''job-1'') = Some Completed
   \<and> map_option job_status
     (jobs (updateJobStep 9 (sample_service Running Completed Pending Pending)
              ''job-1'' ''s2'' (set_status Running)) ''job-1'') = Some Running"
proof -
  let ?job = "\<lambda>js a b c.
     \<lparr> job_id = ''job-1'', job_name = ''PDF Processing Pipeline'',
       job_filename = ''catalog.pdf'', job_status = js, job_startTime = 0,
       job_endTime = None,
       job_steps = [sample_step ''s1'' a, sample_step ''s2'' b, sample_step ''s3'' c] \<rparr>"
  have j: "jobs (sample_service js a b c) ''job-1'' = Some (?job js a b c)" for js a b c
    by (simp add: sample_service_def)
  have i3: "findIndex (\<lambda>s. step_id s = ''s3'') (job_steps (?job js a b c)) = Some 2"
    for js a b c
    by (simp add: sample_step_def new_step_def)
  have i2: "findIndex (\<lambda>s. step_id s = ''s2'') (job_steps (?job js a b c)) = Some 1"
    for js a b c
    by (simp add: sample_step_def new_step_def)
  have n1: "\<forall>s \<in> set (job_steps (?job Running Completed Completed Running)).
              step_status s \<noteq> Failed"
    by (simp add: sample_step_def new_step_def)
  have n2: "\<forall>s \<in> set (job_steps (?job Running Completed Pending Pending)).
              step_status s \<noteq> Failed"
    by (simp add: sample_step_def new_step_def)
  from updateJobStep_status[OF j i3 n1, of 9 "set_status Failed"]
  have 1: "map_option job_status
     (jobs (updateJobStep 9 (sample_service Running Completed Completed Running)
              ''job-1'' ''s3'' (set_status Failed)) ''job-1'') = Some Failed"
    by (auto simp: updateJobStep_def j notifyUpdate_def Let_def spec_job_status_def
          set_status_def no_updates_def merge_step_def sample_step_def new_step_def)
  from updateJobStep_status[OF j i3 n1, of 9 "set_status Completed"]
  have 2: "map_option job_status
     (jobs (updateJobStep 9 (sample_service Running Completed Completed Running)
              ''job-1'' ''s3'' (set_status Completed)) ''job-1'') = Some Completed"
    by (auto simp: updateJobStep_def j notifyUpdate_def Let_def spec_job_status_def
          set_status_def no_updates_def merge_step_def sample_step_def new_step_def)
  from updateJobStep_status[OF j i2 n2, of 9 "set_status Running"]
  have 3: "map_option job_status
     (jobs (updateJobStep 9 (sample_service Running Completed Pending Pending)
              ''job-1'' ''s2'' (set_status Running)) ''job-1'') = Some Running"
    by (auto simp: updateJobStep_def j notifyUpdate_def Let_def spec_job_status_def
          set_status_def no_updates_def merge_step_def sample_step_def new_step_def)
  from 1 2 3 show ?thesis by blast
qed

text \<open>
  Claim C1 as stated fails between two steps of a run. \<^verbatim>\<open>startPDFProcessing\<close>
  registers the job as \<^verbatim>\<open>running\<close>; once \<^verbatim>\<open>executeStep\<close> has marked the first step
  running and then completed, no step is failed or running and not all are completed:
  the derivation of the specification gives \<^verbatim>\<open>pending\<close>, the job is still
  \<^verbatim>\<open>running\<close>.
\<close>

theorem updateJobStep_status_counterexample:
  "map_option job_status
     (jobs (mark_completed 1 2 [''Authenticated user''] [] [] ''job-1'' ''auth''
              (mark_running 1 ''job-1'' ''auth''
                 (startPDFProcessing 0 ''job-1'' ''catalog.pdf'' empty_service))) ''job-1'')
     = Some Running
   \<and> map_option (\<lambda>job. spec_job_status (job_steps job))
     (jobs (mark_completed 1 2 [''Authenticated user''] [] [] ''job-1'' ''auth''
              (mark_running 1 ''job-1'' ''auth''
                 (startPDFProcessing 0 ''job-1'' ''catalog.pdf'' empty_service))) ''job-1'')
     = Some Pending"
  by (simp add: mark_completed_def mark_running_def startPDFProcessing_def empty_service_def
      updateJobStep_def notifyUpdate_def pipeline_steps_def new_step_def merge_step_def
      no_updates_def spec_job_status_def Let_def)

section \<open>Properties of the Provider Fallback Dispatcher\<close>

text \<open>
  The test \<^verbatim>\<open>attempts.length >= maxRetries\<close> on a number: it holds from the least whole
  number that is not below the budget, and never for \<^verbatim>\<open>NaN\<close> or \<^verbatim>\<open>Infinity\<close>.
\<close>

lemma length_reaches_iff:
  "length_reaches n m \<longleftrightarrow> (case budget_bound m of Some b \<Rightarrow> b \<le> n | None \<Rightarrow> False)"
proof (cases m)
  case (Num r)
  have "r \<le> real n \<longleftrightarrow> \<lceil>r\<rceil> \<le> int n" by (simp add: ceiling_le_iff)
  also have "\<dots> \<longleftrightarrow> nat \<lceil>r\<rceil> \<le> n" by linarith
  finally show ?thesis using Num by simp
qed simp_all

text \<open>One round of the loop, case by case.\<close>

lemma attempt_loop_stop:
  "length_reaches (length (attempts st)) maxR \<Longrightarrow>
     attempt_loop env request minScore maxR (p # ps) st = Inr st"
  by simp

lemma attempt_loop_raise:
  "\<not> length_reaches (length (attempts st)) maxR \<Longrightarrow>
   invokeProvider env (name p) request = Inl thrown \<Longrightarrow> read_message thrown = None \<Longrightarrow>
     attempt_loop env request minScore maxR (p # ps) st = Inl TypeError"
  by (simp add: Let_def)

lemma attempt_loop_fail:
  "\<not> length_reaches (length (attempts st)) maxR \<Longrightarrow>
   invokeProvider env (name p) request = Inl thrown \<Longrightarrow> read_message thrown = Some msg \<Longrightarrow>
     attempt_loop env request minScore maxR (p # ps) st
       = attempt_loop env request minScore maxR ps (record_failure env p msg st)"
  by (simp add: Let_def record_failure_def)

lemma attempt_loop_exit:
  "\<not> length_reaches (length (attempts st)) maxR \<Longrightarrow>
   invokeProvider env (name p) request = Inr result \<Longrightarrow>
   v_score (validateResponse result request) \<ge> minScore \<Longrightarrow>
     attempt_loop env request minScore maxR (p # ps) st
       = Inr (record_result env request p result st)"
  by (simp add: Let_def record_result_def)

lemma attempt_loop_continue:
  "\<not> length_reaches (length (attempts st)) maxR \<Longrightarrow>
   invokeProvider env (name p) request = Inr result \<Longrightarrow>
   \<not> v_score (validateResponse result request) \<ge> minScore \<Longrightarrow>
     attempt_loop env request minScore maxR (p # ps) st
       = attempt_loop env request minScore maxR ps (record_result env request p result st)"
  by (simp add: Let_def record_result_def)

lemma attempts_record_failure:
  "attempts (record_failure env p msg st) = attempts st @
     [\<lparr> a_provider = name p, a_success = False, a_score = None, a_error = Some msg,
        a_processing_time_ms = clock env (Suc (ticks st)) - clock env (ticks st) \<rparr>]"
  by (simp add: record_failure_def)

lemma attempts_record_result:
  "attempts (record_result env request p result st) = attempts st @
     [\<lparr> a_provider = name p, a_success = True,
        a_score = Some (v_score (validateResponse result request)), a_error = None,
        a_processing_time_ms = clock env (Suc (ticks st)) - clock env (ticks st) \<rparr>]"
  by (simp add: record_result_def Let_def)

lemma ticks_record:
  "ticks (record_failure env p msg st) = Suc (Suc (ticks st))"
  "ticks (record_result env request p result st) = Suc (Suc (ticks st))"
  by (simp_all add: record_failure_def record_result_def Let_def)

text \<open>The five ways one round of the loop can go.\<close>

lemma attempt_loop_round:
  obtains
    (stop) "length_reaches (length (attempts st)) maxR"
      "attempt_loop env request minScore maxR (p # ps) st = Inr st"
  | (raise) thrown where "\<not> length_reaches (length (attempts st)) maxR"
      "invokeProvider env (name p) request = Inl thrown" "read_message thrown = None"
      "attempt_loop env request minScore maxR (p # ps) st = Inl TypeError"
  | (fail) thrown msg where "\<not> length_reaches (length (attempts st)) maxR"
      "invokeProvider env (name p) request = Inl thrown" "read_message thrown = Some msg"
      "attempt_loop env request minScore maxR (p # ps) st
         = attempt_loop env request minScore maxR ps (record_failure env p msg st)"
  | (exit) result where "\<not> length_reaches (length (attempts st)) maxR"
      "invokeProvider env (name p) request = Inr result"
      "v_score (validateResponse result request) \<ge> minScore"
      "attempt_loop env request minScore maxR (p # ps) st
         = Inr (record_result env request p result st)"
  | (continue) result where "\<not> length_reaches (length (attempts st)) maxR"
      "invokeProvider env (name p) request = Inr result"
      "\<not> v_score (validateResponse result request) \<ge> minScore"
      "attempt_loop env request minScore maxR (p # ps) st
         = attempt_loop env request minScore maxR ps (record_result env request p result st)"
proof (cases "length_reaches (length (attempts st)) maxR")
  case True
  then show ?thesis using stop attempt_loop_stop by blast
next
  case budget: False
  show ?thesis
  proof (cases "invokeProvider env (name p) request")
    case (Inl thrown)
    show ?thesis
    proof (cases "read_message thrown")
      case None
      with budget Inl show ?thesis using raise attempt_loop_raise by blast
    next
      case (Some msg)
      with budget Inl show ?thesis using fail attempt_loop_fail by blast
    qed
  next
    case (Inr result)
    show ?thesis
    proof (cases "v_score (validateResponse result request) \<ge> minScore")
      case True
      with budget Inr show ?thesis using exit attempt_loop_exit by blast
    next
      case False
      with budget Inr show ?thesis using continue attempt_loop_continue by blast
    qed
  qed
qed

text \<open>
  The ledger after the loop, when the loop returns: the entries added are one per
  provider of a prefix of the provider list, in order, each recording what that provider
  did.
\<close>

lemma attempt_records_failure:
  "invokeProvider env (name p) request = Inl thrown \<Longrightarrow> read_message thrown = Some msg \<Longrightarrow>
   attempt_records env request p
     \<lparr> a_provider = name p, a_success = False, a_score = None, a_error = Some msg,
       a_processing_time_ms = t \<rparr>"
  by (simp add: attempt_records_def)

lemma attempt_records_result:
  "invokeProvider env (name p) request = Inr result \<Longrightarrow>
   attempt_records env request p
     \<lparr> a_provider = name p, a_success = True,
       a_score = Some (v_score (validateResponse result request)), a_error = None,
       a_processing_time_ms = t \<rparr>"
  by (simp add: attempt_records_def)

lemma attempt_loop_ledger:
  assumes "attempt_loop env request minScore maxR ps st = Inr st'"
  shows "\<exists>new. attempts st' = attempts st @ new
      \<and> length new \<le> length ps
      \<and> list_all2 (attempt_records env request) (take (length new) ps) new"
  using assms
proof (induction ps arbitrary: st)
  case Nil
  then show ?case by simp
next
  case (Cons p ps)
  show ?case
  proof (cases rule: attempt_loop_round[of st maxR env request minScore p ps])
    case stop
    with Cons.prems show ?thesis by simp
  next
    case (raise thrown)
    with Cons.prems show ?thesis by simp
  next
    case (fail thrown msg)
    with Cons.prems Cons.IH[of "record_failure env p msg st"] obtain new where
      n: "attempts st' = attempts (record_failure env p msg st) @ new"
        "length new \<le> length ps"
        "list_all2 (attempt_records env request) (take (length new) ps) new" by auto
    let ?a = "\<lparr> a_provider = name p, a_success = False, a_score = None, a_error = Some msg,
        a_processing_time_ms = clock env (Suc (ticks st)) - clock env (ticks st) \<rparr>"
    have h: "attempt_records env request p ?a"
      using fail by (intro attempt_records_failure)
    show ?thesis
      by (rule exI[of _ "?a # new"]) (use n h in \<open>simp add: attempts_record_failure\<close>)
  next
    case (exit result)
    let ?a = "\<lparr> a_provider = name p, a_success = True,
        a_score = Some (v_score (validateResponse result request)), a_error = None,
        a_processing_time_ms = clock env (Suc (ticks st)) - clock env (ticks st) \<rparr>"
    have h: "attempt_records env request p ?a"
      using exit by (intro attempt_records_result)
    from exit Cons.prems have "st' = record_result env request p result st" by simp
    then show ?thesis
      by (intro exI[of _ "[?a]"]) (use h in \<open>simp add: attempts_record_result\<close>)
  next
    case (continue result)
    with Cons.prems Cons.IH[of "record_result env request p result st"] obtain new where
      n: "attempts st' = attempts (record_result env request p result st) @ new"
        "length new \<le> length ps"
        "list_all2 (attempt_records env request) (take (length new) ps) new" by auto
    let ?a = "\<lparr> a_provider = name p, a_success = True,
        a_score = Some (v_score (validateResponse result request)), a_error = None,
        a_processing_time_ms = clock env (Suc (ticks st)) - clock env (ticks st) \<rparr>"
    have h: "attempt_records env request p ?a"
      using continue by (intro attempt_records_result)
    show ?thesis
      by (rule exI[of _ "?a # new"]) (use n h in \<open>simp add: attempts_record_result\<close>)
  qed
qed

text \<open>
  The loop adds no entry once the ledger has reached the bound of the budget.
\<close>

lemma attempt_loop_budget:
  assumes "attempt_loop env request minScore maxR ps st = Inr st'"
    and "budget_bound maxR = Some b"
  shows "length (attempts st') \<le> max (length (attempts st)) b"
  using assms(1)
proof (induction ps arbitrary: st)
  case Nil
  then show ?case by simp
next
  case (Cons p ps)
  have lt: "Suc (length (attempts st)) \<le> b" if "\<not> length_reaches (length (attempts st)) maxR"
    using that assms(2) by (simp add: length_reaches_iff)
  show ?case
  proof (cases rule: attempt_loop_round[of st maxR env request minScore p ps])
    case stop
    with Cons.prems show ?thesis by simp
  next
    case (raise thrown)
    with Cons.prems show ?thesis by simp
  next
    case (fail thrown msg)
    with Cons.prems Cons.IH[of "record_failure env p msg st"]
    have "length (attempts st') \<le> max (length (attempts (record_failure env p msg st))) b"
      by simp
    with lt[OF fail(1)] show ?thesis by (simp add: attempts_record_failure)
  next
    case (exit result)
    with Cons.prems have "st' = record_result env request p result st" by simp
    with lt[OF exit(1)] show ?thesis by (simp add: attempts_record_result)
  next
    case (continue result)
    with Cons.prems Cons.IH[of "record_result env request p result st"]
    have "length (attempts st') \<le> max (length (attempts (record_result env request p result st))) b"
      by simp
    with lt[OF continue(1)] show ?thesis by (simp add: attempts_record_result)
  qed
qed

text \<open>
  The loop returns when every value thrown by a provider is one whose \<^verbatim>\<open>message\<close> can be
  read; and it stops right after the first provider whose result meets the threshold.
\<close>

lemma length_reaches_mono:
  "length_reaches n m \<Longrightarrow> n \<le> n' \<Longrightarrow> length_reaches n' m"
  by (auto simp: length_reaches_iff split: option.splits)

lemma attempt_loop_returns:
  assumes "\<forall>q \<in> set ps. \<forall>thrown. invokeProvider env (name q) request = Inl thrown
             \<longrightarrow> read_message thrown \<noteq> None"
  shows "\<exists>st'. attempt_loop env request minScore maxR ps st = Inr st'"
  using assms
proof (induction ps arbitrary: st)
  case Nil
  show ?case by simp
next
  case (Cons p ps)
  show ?case
  proof (cases rule: attempt_loop_round[of st maxR env request minScore p ps])
    case (raise thrown)
    with Cons.prems show ?thesis by simp
  next
    case (fail thrown msg)
    with Cons.IH[of "record_failure env p msg st"] Cons.prems show ?thesis by simp
  next
    case (continue result)
    with Cons.IH[of "record_result env request p result st"] Cons.prems show ?thesis by simp
  qed simp_all
qed

lemma attempt_loop_early_exit:
  assumes "\<forall>q \<in> set pre. \<forall>r. invokeProvider env (name q) request = Inr r
             \<longrightarrow> v_score (validateResponse r request) < minScore"
    and "\<forall>q \<in> set pre. \<forall>thrown. invokeProvider env (name q) request = Inl thrown
             \<longrightarrow> read_message thrown \<noteq> None"
    and "invokeProvider env (name p) request = Inr result"
    and "v_score (validateResponse result request) \<ge> minScore"
    and "\<not> length_reaches (length (attempts st) + length pre) maxR"
  shows "\<exists>st'. attempt_loop env request minScore maxR (pre @ p # post) st = Inr st'
         \<and> map a_provider (attempts st') = map a_provider (attempts st) @ map name pre @ [name p]"
  using assms
proof (induction pre arbitrary: st)
  case Nil
  then have "attempt_loop env request minScore maxR (p # post) st
       = Inr (record_result env request p result st)"
    by (intro attempt_loop_exit) simp_all
  then show ?case by (simp add: attempts_record_result)
next
  case (Cons q pre)
  have budget: "\<not> length_reaches (length (attempts st)) maxR"
    using Cons.prems(5) length_reaches_mono[of "length (attempts st)" maxR
        "length (attempts st) + length (q # pre)"] by auto
  show ?case
  proof (cases "invokeProvider env (name q) request")
    case (Inl thrown)
    with Cons.prems(2) obtain msg where m: "read_message thrown = Some msg" by auto
    have eq: "attempt_loop env request minScore maxR ((q # pre) @ p # post) st
       = attempt_loop env request minScore maxR (pre @ p # post) (record_failure env q msg st)"
      using attempt_loop_fail[OF budget Inl m] by simp
    have "\<not> length_reaches (length (attempts (record_failure env q msg st)) + length pre) maxR"
      using Cons.prems(5) by (simp add: attempts_record_failure)
    from Cons.IH[OF _ _ Cons.prems(3,4) this] Cons.prems(1,2)
    show ?thesis unfolding eq by (auto simp: attempts_record_failure)
  next
    case (Inr r)
    with Cons.prems(1) have low: "\<not> v_score (validateResponse r request) \<ge> minScore" by auto
    have eq: "attempt_loop env request minScore maxR ((q # pre) @ p # post) st
       = attempt_loop env request minScore maxR (pre @ p # post) (record_result env request q r st)"
      using attempt_loop_continue[OF budget Inr low] by simp
    have "\<not> length_reaches (length (attempts (record_result env request q r st)) + length pre) maxR"
      using Cons.prems(5) by (simp add: attempts_record_result)
    from Cons.IH[OF _ _ Cons.prems(3,4) this] Cons.prems(1,2)
    show ?thesis unfolding eq by (auto simp: attempts_record_result)
  qed
qed

text \<open>
  An entry added by the loop that meets the threshold is the last one.
\<close>

lemma attempt_loop_threshold_last:
  assumes "attempt_loop env request minScore maxR ps st = Inr st'"
    and "attempts st' = attempts st @ new"
  shows "\<forall>a \<in> set (butlast new). \<forall>s. a_score a = Some s \<longrightarrow> s < minScore"
  using assms
proof (induction ps arbitrary: st new)
  case Nil
  then show ?case by simp
next
  case (Cons p ps)
  show ?case
  proof (cases rule: attempt_loop_round[of st maxR env request minScore p ps])
    case stop
    with Cons.prems show ?thesis by simp
  next
    case (raise thrown)
    with Cons.prems show ?thesis by simp
  next
    case (fail thrown msg)
    from fail Cons.prems(1) have l: "attempt_loop env request minScore maxR ps
        (record_failure env p msg st) = Inr st'" by simp
    from attempt_loop_ledger[OF l] obtain new' where
      n': "attempts st' = attempts (record_failure env p msg st) @ new'" by blast
    with Cons.prems(2) have new: "new = hd new # new'" "a_score (hd new) = None"
      by (auto simp add: attempts_record_failure)
    from Cons.IH[OF l n'] show ?thesis
      by (subst new(1)) (use new(2) in \<open>auto dest: in_set_butlastD\<close>)
  next
    case (exit result)
    from exit(4) Cons.prems(1) have "st' = record_result env request p result st" by simp
    with Cons.prems(2) have "length new = 1" by (auto simp add: attempts_record_result)
    then have "butlast new = []" by (cases new) simp_all
    then show ?thesis by simp
  next
    case (continue result)
    from continue Cons.prems(1) have l: "attempt_loop env request minScore maxR ps
        (record_result env request p result st) = Inr st'" by simp
    from attempt_loop_ledger[OF l] obtain new' where
      n': "attempts st' = attempts (record_result env request p result st) @ new'" by blast
    with Cons.prems(2) have new: "new = hd new # new'"
      "a_score (hd new) = Some (v_score (validateResponse result request))"
      by (auto simp add: attempts_record_result)
    from Cons.IH[OF l n'] continue(3) show ?thesis
      by (subst new(1)) (use new(2) in \<open>auto dest: in_set_butlastD\<close>)
  qed
qed

text \<open>
  When no attempt meets the threshold, the loop runs until the budget or the provider
  list is exhausted.
\<close>

lemma Suc_min_diff: "Suc k \<le> m \<Longrightarrow> Suc (min (m - Suc k) n) = min (m - k) (Suc n)"
  by arith

lemma attempt_loop_exhaustive:
  assumes "attempt_loop env request minScore maxR ps st = Inr st'"
    and "attempts st' = attempts st @ new"
    and "\<forall>a \<in> set new. \<forall>s. a_score a = Some s \<longrightarrow> s < minScore"
  shows "length new = (case budget_bound maxR of
                         Some b \<Rightarrow> min (b - length (attempts st)) (length ps)
                       | None \<Rightarrow> length ps)"
  using assms
proof (induction ps arbitrary: st new)
  case Nil
  then show ?case by (simp split: option.splits)
next
  case (Cons p ps)
  have lt: "case budget_bound maxR of Some b \<Rightarrow> Suc (length (attempts st)) \<le> b | None \<Rightarrow> True"
    if "\<not> length_reaches (length (attempts st)) maxR"
    using that by (auto simp: length_reaches_iff split: option.splits)
  show ?case
  proof (cases rule: attempt_loop_round[of st maxR env request minScore p ps])
    case stop
    with Cons.prems(1,2) have "new = []" by simp
    with stop(1) show ?thesis by (auto simp: length_reaches_iff split: option.splits)
  next
    case (raise thrown)
    with Cons.prems show ?thesis by simp
  next
    case (fail thrown msg)
    from fail Cons.prems(1) have l: "attempt_loop env request minScore maxR ps
        (record_failure env p msg st) = Inr st'" by simp
    from attempt_loop_ledger[OF l] obtain new' where
      n': "attempts st' = attempts (record_failure env p msg st) @ new'" by blast
    with Cons.prems(2) have new: "new = hd new # new'"
      by (auto simp add: attempts_record_failure)
    then have "set new' \<subseteq> set new" by (metis set_subset_Cons)
    with Cons.prems(3) have "\<forall>a \<in> set new'. \<forall>s. a_score a = Some s \<longrightarrow> s < minScore" by blast
    from Cons.IH[OF l n' this] lt[OF fail(1)] show ?thesis
      by (subst new) (auto simp: attempts_record_failure Suc_min_diff split: option.splits)
  next
    case (exit result)
    from exit(4) Cons.prems(1) have "st' = record_result env request p result st" by simp
    with Cons.prems(2) have "new = [\<lparr> a_provider = name p, a_success = True,
        a_score = Some (v_score (validateResponse result request)), a_error = None,
        a_processing_time_ms = clock env (Suc (ticks st)) - clock env (ticks st) \<rparr>]"
      by (auto simp add: attempts_record_result)
    with Cons.prems(3) exit(3) show ?thesis by simp
  next
    case (continue result)
    from continue Cons.prems(1) have l: "attempt_loop env request minScore maxR ps
        (record_result env request p result st) = Inr st'" by simp
    from attempt_loop_ledger[OF l] obtain new' where
      n': "attempts st' = attempts (record_result env request p result st) @ new'" by blast
    with Cons.prems(2) have new: "new = hd new # new'"
      by (auto simp add: attempts_record_result)
    then have "set new' \<subseteq> set new" by (metis set_subset_Cons)
    with Cons.prems(3) have "\<forall>a \<in> set new'. \<forall>s. a_score a = Some s \<longrightarrow> s < minScore" by blast
    from Cons.IH[OF l n' this] lt[OF continue(1)] show ?thesis
      by (subst new) (auto simp: attempts_record_result Suc_min_diff split: option.splits)
  qed
qed

text \<open>Every attempt reads the clock twice.\<close>

lemma attempt_loop_ticks:
  assumes "attempt_loop env request minScore maxR ps st = Inr st'"
  shows "ticks st' + 2 * length (attempts st) = ticks st + 2 * length (attempts st')"
  using assms
proof (induction ps arbitrary: st)
  case Nil
  then show ?case by simp
next
  case (Cons p ps)
  show ?case
  proof (cases rule: attempt_loop_round[of st maxR env request minScore p ps])
    case stop
    with Cons.prems show ?thesis by simp
  next
    case (raise thrown)
    with Cons.prems show ?thesis by simp
  next
    case (fail thrown msg)
    with Cons.prems Cons.IH[of "record_failure env p msg st"] show ?thesis
      by (simp add: attempts_record_failure ticks_record)
  next
    case (exit result)
    with Cons.prems show ?thesis by (auto simp add: attempts_record_result ticks_record)
  next
    case (continue result)
    with Cons.prems Cons.IH[of "record_result env request p result st"] show ?thesis
      by (simp add: attempts_record_result ticks_record)
  qed
qed

text \<open>
  The early exit, also when an earlier provider throws a value without a readable
  \<^verbatim>\<open>message\<close>: the loop then raises and no later provider is tried.
\<close>

lemma attempt_loop_early_exit_general:
  assumes "\<forall>q \<in> set pre. \<forall>r. invokeProvider env (name q) request = Inr r
             \<longrightarrow> v_score (validateResponse r request) < minScore"
    and "invokeProvider env (name p) request = Inr result"
    and "v_score (validateResponse result request) \<ge> minScore"
    and "\<not> length_reaches (length (attempts st) + length pre) maxR"
  shows "if \<forall>q \<in> set pre. \<forall>thrown. invokeProvider env (name q) request = Inl thrown
               \<longrightarrow> read_message thrown \<noteq> None
         then \<exists>st'. attempt_loop env request minScore maxR (pre @ p # post) st = Inr st'
               \<and> map a_provider (attempts st')
                   = map a_provider (attempts st) @ map name pre @ [name p]
         else attempt_loop env request minScore maxR (pre @ p # post) st = Inl TypeError"
  using assms
proof (induction pre arbitrary: st)
  case Nil
  then have "attempt_loop env request minScore maxR (p # post) st
       = Inr (record_result env request p result st)"
    by (intro attempt_loop_exit) simp_all
  then show ?case by (simp add: attempts_record_result)
next
  case (Cons q pre)
  have budget: "\<not> length_reaches (length (attempts st)) maxR"
    using Cons.prems(4) length_reaches_mono[of "length (attempts st)" maxR
        "length (attempts st) + length (q # pre)"] by auto
  have low: "\<forall>q \<in> set pre. \<forall>r. invokeProvider env (name q) request = Inr r
             \<longrightarrow> v_score (validateResponse r request) < minScore"
    using Cons.prems(1) by simp
  show ?case
  proof (cases "invokeProvider env (name q) request")
    case (Inl thrown)
    show ?thesis
    proof (cases "read_message thrown")
      case None
      have "attempt_loop env request minScore maxR ((q # pre) @ p # post) st = Inl TypeError"
        using attempt_loop_raise[OF budget Inl None] by simp
      moreover have "\<not> (\<forall>q' \<in> set (q # pre). \<forall>thrown. invokeProvider env (name q') request = Inl thrown
               \<longrightarrow> read_message thrown \<noteq> None)"
        using Inl None by auto
      ultimately show ?thesis by presburger
    next
      case (Some msg)
      have eq: "attempt_loop env request minScore maxR ((q # pre) @ p # post) st
         = attempt_loop env request minScore maxR (pre @ p # post) (record_failure env q msg st)"
        using attempt_loop_fail[OF budget Inl Some] by simp
      have c: "(\<forall>q' \<in> set (q # pre). \<forall>thrown. invokeProvider env (name q') request = Inl thrown
               \<longrightarrow> read_message thrown \<noteq> None)
            \<longleftrightarrow> (\<forall>q' \<in> set pre. \<forall>thrown. invokeProvider env (name q') request = Inl thrown
               \<longrightarrow> read_message thrown \<noteq> None)"
        using Inl Some by auto
      have "\<not> length_reaches (length (attempts (record_failure env q msg st)) + length pre) maxR"
        using Cons.prems(4) by (simp add: attempts_record_failure)
      from Cons.IH[OF low Cons.prems(2,3) this]
      show ?thesis unfolding eq c
        by (auto simp add: attempts_record_failure split: if_splits)
    qed
  next
    case (Inr r)
    with Cons.prems(1) have lowq: "\<not> v_score (validateResponse r request) \<ge> minScore" by auto
    have eq: "attempt_loop env request minScore maxR ((q # pre) @ p # post) st
       = attempt_loop env request minScore maxR (pre @ p # post) (record_result env request q r st)"
      using attempt_loop_continue[OF budget Inr lowq] by simp
    have c: "(\<forall>q' \<in> set (q # pre). \<forall>thrown. invokeProvider env (name q') request = Inl thrown
               \<longrightarrow> read_message thrown \<noteq> None)
            \<longleftrightarrow> (\<forall>q' \<in> set pre. \<forall>thrown. invokeProvider env (name q') request = Inl thrown
               \<longrightarrow> read_message thrown \<noteq> None)"
      using Inr by auto
    have "\<not> length_reaches (length (attempts (record_result env request q r st)) + length pre) maxR"
      using Cons.prems(4) by (simp add: attempts_record_result)
    from Cons.IH[OF low Cons.prems(2,3) this]
    show ?thesis unfolding eq c
      by (auto simp add: attempts_record_result split: if_splits)
  qed
qed

text \<open>From the loop to the response.\<close>

lemma processRequest_raises:
  "run_attempts providers env request = Inl e \<Longrightarrow> processRequest providers env request = Inl e"
  by (simp add: processRequest_def)

lemma processRequest_run:
  assumes "run_attempts providers env request = Inr st"
  shows "\<exists>resp. processRequest providers env request = Inr resp
     \<and> r_attempts resp = attempts st
     \<and> r_total_processing_time_ms resp = clock env (ticks st) - clock env 0
     \<and> r_success resp = truthy (bestResult st)
     \<and> (if truthy (bestResult st)
        then r_data resp = bestResult st
           \<and> r_provider resp =
               (case find (\<lambda>a. a_score a = Some (bestScore st)) (attempts st) of
                  None \<Rightarrow> ''unknown''
                | Some a \<Rightarrow> if a_provider a = [] then ''unknown'' else a_provider a)
           \<and> r_final_score resp = bestScore st
           \<and> r_validation resp = bestValidation st
        else r_data resp = JNull \<and> r_provider resp = ''none'' \<and> r_final_score resp = 0)"
  using assms by (simp add: processRequest_def Let_def)

lemma processRequest_returned:
  assumes "processRequest providers env request = Inr resp"
  obtains st where "run_attempts providers env request = Inr st"
    "r_attempts resp = attempts st"
    "r_total_processing_time_ms resp = clock env (ticks st) - clock env 0"
    "r_success resp = truthy (bestResult st)"
    "if truthy (bestResult st)
        then r_data resp = bestResult st
           \<and> r_provider resp =
               (case find (\<lambda>a. a_score a = Some (bestScore st)) (attempts st) of
                  None \<Rightarrow> ''unknown''
                | Some a \<Rightarrow> if a_provider a = [] then ''unknown'' else a_provider a)
           \<and> r_final_score resp = bestScore st
           \<and> r_validation resp = bestValidation st
        else r_data resp = JNull \<and> r_provider resp = ''none'' \<and> r_final_score resp = 0"
proof (cases "run_attempts providers env request")
  case (Inl e)
  with assms show ?thesis by (simp add: processRequest_def)
next
  case (Inr st)
  from processRequest_run[OF Inr] assms that[OF Inr] show ?thesis by auto
qed

lemma run_attempts_ledger:
  assumes "run_attempts providers env request = Inr st"
  shows "length (attempts st) \<le> length (sortedProviders providers)"
    and "list_all2 (attempt_records env request)
           (take (length (attempts st)) (sortedProviders providers)) (attempts st)"
  using attempt_loop_ledger[OF assms[unfolded run_attempts_def]]
  by (auto simp add: initial_loop_state_def)

lemma invokeProvider_readable:
  "throws_readable env request \<Longrightarrow> invokeProvider env n request = Inl thrown \<Longrightarrow>
     read_message thrown \<noteq> None"
  by (auto simp: throws_readable_def invokeProvider_def error_object_def split: if_splits)

lemma invokeProvider_truthy:
  "results_truthy env request \<Longrightarrow> invokeProvider env n request = Inr r \<Longrightarrow> truthy r"
  by (auto simp: results_truthy_def invokeProvider_def split: if_splits)

lemma run_attempts_returns:
  "throws_readable env request \<Longrightarrow> \<exists>st. run_attempts providers env request = Inr st"
  unfolding run_attempts_def
  by (rule attempt_loop_returns) (use invokeProvider_readable in blast)

lemma client_env_readable: "throws_readable (client_env c) request"
  by (simp add: throws_readable_def client_env_def client_callOpenAI_def client_callClaude_def
      error_object_def)

lemma client_env_truthy: "results_truthy (client_env c) request"
  by (simp add: results_truthy_def client_env_def client_callOpenAI_def client_callClaude_def)

lemma client_env_throws:
  "\<exists>m. invokeProvider (client_env c) n request = Inl (error_object m)"
  unfolding invokeProvider_def client_env_def client_callOpenAI_def client_callClaude_def
  by (cases "n = ''openai''"; cases "n = ''claude''") (simp_all, blast+)

text \<open>
  The running best is maintained by every step of the loop.
\<close>

lemma v_score_pos: "0 < v_score (validateResponse result request)"
  by (simp add: validateResponse_def)

lemma best_inv_initial: "best_inv env request initial_loop_state"
  by (simp add: best_inv_def initial_loop_state_def)

lemma best_inv_failure:
  assumes "best_inv env request st"
  shows "best_inv env request
           (st\<lparr> attempts := attempts st @
                    [\<lparr> a_provider = n, a_success = False, a_score = None, a_error = Some msg,
                       a_processing_time_ms = t \<rparr>],
                 ticks := k \<rparr>)"
proof -
  let ?a = "\<lparr> a_provider = n, a_success = False, a_score = None, a_error = Some msg,
              a_processing_time_ms = t \<rparr>"
  let ?st = "st\<lparr> attempts := attempts st @ [?a], ticks := k \<rparr>"
  from assms have 1: "\<forall>a \<in> set (attempts st).
        (a_success a \<longleftrightarrow> a_score a \<noteq> None) \<and> (a_success a \<or> a_error a \<noteq> None) \<and>
        (\<forall>s. a_score a = Some s \<longrightarrow> 0 < s \<and> s \<le> bestScore st)"
    and 2: "(\<forall>a \<in> set (attempts st). a_score a = None) \<longrightarrow>
        bestResult st = JNull \<and> bestScore st = 0"
    and 3: "(\<exists>a \<in> set (attempts st). a_score a \<noteq> None) \<longrightarrow>
        (\<exists>pre a post.
           attempts st = pre @ a # post \<and>
           (\<forall>b \<in> set pre. a_score b \<noteq> Some (bestScore st)) \<and>
           a_score a = Some (bestScore st) \<and> a_success a \<and>
           invokeProvider env (a_provider a) request = Inr (bestResult st) \<and>
           bestScore st = v_score (validateResponse (bestResult st) request) \<and>
           bestValidation st = Some (validateResponse (bestResult st) request))"
    unfolding best_inv_def by blast+
  have a: "\<forall>a \<in> set (attempts ?st).
        (a_success a \<longleftrightarrow> a_score a \<noteq> None) \<and> (a_success a \<or> a_error a \<noteq> None) \<and>
        (\<forall>s. a_score a = Some s \<longrightarrow> 0 < s \<and> s \<le> bestScore ?st)"
    using 1 by auto
  have b: "(\<forall>a \<in> set (attempts ?st). a_score a = None) \<longrightarrow>
        bestResult ?st = JNull \<and> bestScore ?st = 0"
    using 2 by auto
  have c: "(\<exists>a \<in> set (attempts ?st). a_score a \<noteq> None) \<longrightarrow>
        (\<exists>pre a post.
           attempts ?st = pre @ a # post \<and>
           (\<forall>b \<in> set pre. a_score b \<noteq> Some (bestScore ?st)) \<and>
           a_score a = Some (bestScore ?st) \<and> a_success a \<and>
           invokeProvider env (a_provider a) request = Inr (bestResult ?st) \<and>
           bestScore ?st = v_score (validateResponse (bestResult ?st) request) \<and>
           bestValidation ?st = Some (validateResponse (bestResult ?st) request))"
  proof
    assume "\<exists>a \<in> set (attempts ?st). a_score a \<noteq> None"
    then have "\<exists>a \<in> set (attempts st). a_score a \<noteq> None" by auto
    with 3 obtain pre a post where p: "attempts st = pre @ a # post"
           "\<forall>b \<in> set pre. a_score b \<noteq> Some (bestScore st)"
           "a_score a = Some (bestScore st)" "a_success a"
           "invokeProvider env (a_provider a) request = Inr (bestResult st)"
           "bestScore st = v_score (validateResponse (bestResult st) request)"
           "bestValidation st = Some (validateResponse (bestResult st) request)"
      by blast
    show "\<exists>pre a post.
           attempts ?st = pre @ a # post \<and>
           (\<forall>b \<in> set pre. a_score b \<noteq> Some (bestScore ?st)) \<and>
           a_score a = Some (bestScore ?st) \<and> a_success a \<and>
           invokeProvider env (a_provider a) request = Inr (bestResult ?st) \<and>
           bestScore ?st = v_score (validateResponse (bestResult ?st) request) \<and>
           bestValidation ?st = Some (validateResponse (bestResult ?st) request)"
      apply (rule exI[of _ pre], rule exI[of _ a], rule exI[of _ "post @ [?a]"])
      using p by simp
  qed
  from a b c show ?thesis unfolding best_inv_def by blast
qed

lemma best_inv_success:
  assumes "best_inv env request st"
    and r: "invokeProvider env n request = Inr result"
  shows "best_inv env request
           (let v = validateResponse result request;
                st1 = st\<lparr> attempts := attempts st @
                             [\<lparr> a_provider = n, a_success = True, a_score = Some (v_score v),
                                a_error = None, a_processing_time_ms = t \<rparr>],
                          ticks := k \<rparr>
            in if v_score v > bestScore st1
               then st1\<lparr> bestResult := result, bestScore := v_score v, bestValidation := Some v \<rparr>
               else st1)"
proof -
  let ?v = "validateResponse result request"
  let ?a = "\<lparr> a_provider = n, a_success = True, a_score = Some (v_score ?v),
              a_error = None, a_processing_time_ms = t \<rparr>"
  let ?st1 = "st\<lparr> attempts := attempts st @ [?a], ticks := k \<rparr>"
  from assms(1) have 1: "\<forall>a \<in> set (attempts st).
        (a_success a \<longleftrightarrow> a_score a \<noteq> None) \<and> (a_success a \<or> a_error a \<noteq> None) \<and>
        (\<forall>s. a_score a = Some s \<longrightarrow> 0 < s \<and> s \<le> bestScore st)"
    and 2: "(\<forall>a \<in> set (attempts st). a_score a = None) \<longrightarrow>
        bestResult st = JNull \<and> bestScore st = 0"
    and 3: "(\<exists>a \<in> set (attempts st). a_score a \<noteq> None) \<longrightarrow>
        (\<exists>pre a post.
           attempts st = pre @ a # post \<and>
           (\<forall>b \<in> set pre. a_score b \<noteq> Some (bestScore st)) \<and>
           a_score a = Some (bestScore st) \<and> a_success a \<and>
           invokeProvider env (a_provider a) request = Inr (bestResult st) \<and>
           bestScore st = v_score (validateResponse (bestResult st) request) \<and>
           bestValidation st = Some (validateResponse (bestResult st) request))"
    unfolding best_inv_def by blast+
  have pos: "0 < v_score ?v" by (rule v_score_pos)
  show ?thesis
  proof (cases "v_score ?v > bestScore st")
    case True
    let ?st2 = "?st1\<lparr> bestResult := result, bestScore := v_score ?v, bestValidation := Some ?v \<rparr>"
    have a: "\<forall>a \<in> set (attempts ?st2).
        (a_success a \<longleftrightarrow> a_score a \<noteq> None) \<and> (a_success a \<or> a_error a \<noteq> None) \<and>
        (\<forall>s. a_score a = Some s \<longrightarrow> 0 < s \<and> s \<le> bestScore ?st2)"
      using 1 True pos by fastforce
    have old: "\<forall>b \<in> set (attempts st). a_score b \<noteq> Some (v_score ?v)"
      using 1 True by fastforce
    have c: "\<exists>pre a post.
           attempts ?st2 = pre @ a # post \<and>
           (\<forall>b \<in> set pre. a_score b \<noteq> Some (bestScore ?st2)) \<and>
           a_score a = Some (bestScore ?st2) \<and> a_success a \<and>
           invokeProvider env (a_provider a) request = Inr (bestResult ?st2) \<and>
           bestScore ?st2 = v_score (validateResponse (bestResult ?st2) request) \<and>
           bestValidation ?st2 = Some (validateResponse (bestResult ?st2) request)"
      apply (rule exI[of _ "attempts st"], rule exI[of _ ?a], rule exI[of _ "[]"])
      using old r by simp
    have "best_inv env request ?st2"
      unfolding best_inv_def using a c by auto
    with True show ?thesis by (simp add: Let_def)
  next
    case False
    have scored: "\<exists>a \<in> set (attempts st). a_score a \<noteq> None"
    proof (rule ccontr)
      assume "\<not> ?thesis"
      with 2 have "bestScore st = 0" by simp
      with False pos show False by simp
    qed
    with 3 obtain pre a post where p: "attempts st = pre @ a # post"
           "\<forall>b \<in> set pre. a_score b \<noteq> Some (bestScore st)"
           "a_score a = Some (bestScore st)" "a_success a"
           "invokeProvider env (a_provider a) request = Inr (bestResult st)"
           "bestScore st = v_score (validateResponse (bestResult st) request)"
           "bestValidation st = Some (validateResponse (bestResult st) request)"
      by blast
    have a: "\<forall>a \<in> set (attempts ?st1).
        (a_success a \<longleftrightarrow> a_score a \<noteq> None) \<and> (a_success a \<or> a_error a \<noteq> None) \<and>
        (\<forall>s. a_score a = Some s \<longrightarrow> 0 < s \<and> s \<le> bestScore ?st1)"
      using 1 False pos by fastforce
    have c: "\<exists>pre a post.
           attempts ?st1 = pre @ a # post \<and>
           (\<forall>b \<in> set pre. a_score b \<noteq> Some (bestScore ?st1)) \<and>
           a_score a = Some (bestScore ?st1) \<and> a_success a \<and>
           invokeProvider env (a_provider a) request = Inr (bestResult ?st1) \<and>
           bestScore ?st1 = v_score (validateResponse (bestResult ?st1) request) \<and>
           bestValidation ?st1 = Some (validateResponse (bestResult ?st1) request)"
      apply (rule exI[of _ pre], rule exI[of _ a], rule exI[of _ "post @ [?a]"])
      using p by simp
    have "best_inv env request ?st1"
      unfolding best_inv_def using a c by auto
    with False show ?thesis by (simp add: Let_def)
  qed
qed

lemma best_inv_attempt_loop:
  assumes "attempt_loop env request minScore maxR ps st = Inr st'"
    and "best_inv env request st"
  shows "best_inv env request st'"
  using assms
proof (induction ps arbitrary: st)
  case Nil
  then show ?case by simp
next
  case (Cons p ps)
  show ?case
  proof (cases rule: attempt_loop_round[of st maxR env request minScore p ps])
    case stop
    with Cons.prems show ?thesis by simp
  next
    case (raise thrown)
    with Cons.prems show ?thesis by simp
  next
    case (fail thrown msg)
    have "best_inv env request (record_failure env p msg st)"
      unfolding record_failure_def by (rule best_inv_failure[OF Cons.prems(2)])
    with fail Cons.prems(1) Cons.IH[of "record_failure env p msg st"] show ?thesis by simp
  next
    case (exit result)
    have "best_inv env request (record_result env request p result st)"
      unfolding record_result_def by (rule best_inv_success[OF Cons.prems(2) exit(2)])
    with exit Cons.prems(1) show ?thesis by simp
  next
    case (continue result)
    have "best_inv env request (record_result env request p result st)"
      unfolding record_result_def by (rule best_inv_success[OF Cons.prems(2) continue(2)])
    with continue Cons.prems(1) Cons.IH[of "record_result env request p result st"]
    show ?thesis by simp
  qed
qed

lemma find_first_match:
  "\<forall>b \<in> set pre. \<not> P b \<Longrightarrow> P a \<Longrightarrow> find P (pre @ a # post) = Some a"
  by (induction pre) auto

lemma invokeProvider_name:
  "invokeProvider env n request = Inr result \<Longrightarrow> n = ''openai'' \<or> n = ''claude''"
  by (auto simp: invokeProvider_def split: if_splits)

lemma run_attempts_best_inv:
  "run_attempts providers env request = Inr st \<Longrightarrow> best_inv env request st"
  unfolding run_attempts_def by (erule best_inv_attempt_loop) (rule best_inv_initial)

lemma run_attempts_ticks:
  assumes "run_attempts providers env request = Inr st"
  shows "ticks st = 1 + 2 * length (attempts st)"
  using attempt_loop_ticks[OF assms[unfolded run_attempts_def]]
  by (simp add: initial_loop_state_def)

text \<open>
  The response in general, when the call returns one. When every attempt threw, it is
  the failure response, with score zero and a ledger that holds the message of every
  attempt. When some attempt returned, the first entry with the highest score decides:
  if its result is truthy the response is a success carrying that result, its
  provider, its score and its validation; if it is falsy the response is the failure
  response all the same. The total time is the span between the first and the last
  reading of the clock.
\<close>

lemma processRequest_outcome:
  assumes "processRequest providers env request = Inr resp"
  shows "((\<forall>a \<in> set (r_attempts resp). \<not> a_success a) \<longrightarrow>
      \<not> r_success resp \<and> r_data resp = JNull \<and> r_provider resp = ''none''
      \<and> r_final_score resp = 0
      \<and> (\<forall>a \<in> set (r_attempts resp). \<exists>msg. a_error a = Some msg))
   \<and> ((\<exists>a \<in> set (r_attempts resp). a_success a) \<longrightarrow>
      (\<exists>a \<in> set (r_attempts resp). \<exists>result.
          a_success a
        \<and> invokeProvider env (a_provider a) request = Inr result
        \<and> a_score a = Some (v_score (validateResponse result request))
        \<and> (\<forall>b \<in> set (r_attempts resp).
              \<forall>s. a_score b = Some s \<longrightarrow> s \<le> v_score (validateResponse result request))
        \<and> (if truthy result
            then r_success resp \<and> r_data resp = result \<and> r_provider resp = a_provider a
               \<and> r_final_score resp = v_score (validateResponse result request)
               \<and> r_validation resp = Some (validateResponse result request)
            else \<not> r_success resp \<and> r_data resp = JNull \<and> r_provider resp = ''none''
               \<and> r_final_score resp = 0)))
   \<and> r_total_processing_time_ms resp
       = clock env (1 + 2 * length (r_attempts resp)) - clock env 0"
proof -
  from assms obtain st where run: "run_attempts providers env request = Inr st"
    and as: "r_attempts resp = attempts st"
    and tm: "r_total_processing_time_ms resp = clock env (ticks st) - clock env 0"
    and sc: "r_success resp = truthy (bestResult st)"
    and out: "if truthy (bestResult st)
        then r_data resp = bestResult st
           \<and> r_provider resp =
               (case find (\<lambda>a. a_score a = Some (bestScore st)) (attempts st) of
                  None \<Rightarrow> ''unknown''
                | Some a \<Rightarrow> if a_provider a = [] then ''unknown'' else a_provider a)
           \<and> r_final_score resp = bestScore st
           \<and> r_validation resp = bestValidation st
        else r_data resp = JNull \<and> r_provider resp = ''none'' \<and> r_final_score resp = 0"
    by (rule processRequest_returned)
  from run_attempts_best_inv[OF run] have 1: "\<forall>a \<in> set (attempts st).
        (a_success a \<longleftrightarrow> a_score a \<noteq> None) \<and> (a_success a \<or> a_error a \<noteq> None) \<and>
        (\<forall>s. a_score a = Some s \<longrightarrow> 0 < s \<and> s \<le> bestScore st)"
    and 2: "(\<forall>a \<in> set (attempts st). a_score a = None) \<longrightarrow>
        bestResult st = JNull \<and> bestScore st = 0"
    and 3: "(\<exists>a \<in> set (attempts st). a_score a \<noteq> None) \<longrightarrow>
        (\<exists>pre a post.
           attempts st = pre @ a # post \<and>
           (\<forall>b \<in> set pre. a_score b \<noteq> Some (bestScore st)) \<and>
           a_score a = Some (bestScore st) \<and> a_success a \<and>
           invokeProvider env (a_provider a) request = Inr (bestResult st) \<and>
           bestScore st = v_score (validateResponse (bestResult st) request) \<and>
           bestValidation st = Some (validateResponse (bestResult st) request))"
    unfolding best_inv_def by blast+
  have A: "\<not> r_success resp \<and> r_data resp = JNull \<and> r_provider resp = ''none''
      \<and> r_final_score resp = 0 \<and> (\<forall>a \<in> set (r_attempts resp). \<exists>msg. a_error a = Some msg)"
    if f: "\<forall>a \<in> set (r_attempts resp). \<not> a_success a"
  proof -
    from f 1 have n: "\<forall>a \<in> set (attempts st). a_score a = None" unfolding as by blast
    with 2 have "bestResult st = JNull" by blast
    with sc out have r: "\<not> r_success resp \<and> r_data resp = JNull \<and> r_provider resp = ''none''
      \<and> r_final_score resp = 0"
      by simp
    from f 1 have "\<forall>a \<in> set (r_attempts resp). \<exists>msg. a_error a = Some msg"
      unfolding as by fastforce
    with r show ?thesis by blast
  qed
  have B: "\<exists>a \<in> set (r_attempts resp). \<exists>result.
          a_success a
        \<and> invokeProvider env (a_provider a) request = Inr result
        \<and> a_score a = Some (v_score (validateResponse result request))
        \<and> (\<forall>b \<in> set (r_attempts resp).
              \<forall>s. a_score b = Some s \<longrightarrow> s \<le> v_score (validateResponse result request))
        \<and> (if truthy result
            then r_success resp \<and> r_data resp = result \<and> r_provider resp = a_provider a
               \<and> r_final_score resp = v_score (validateResponse result request)
               \<and> r_validation resp = Some (validateResponse result request)
            else \<not> r_success resp \<and> r_data resp = JNull \<and> r_provider resp = ''none''
               \<and> r_final_score resp = 0)"
    if s: "\<exists>a \<in> set (r_attempts resp). a_success a"
  proof -
    from s 1 have "\<exists>a \<in> set (attempts st). a_score a \<noteq> None" unfolding as by blast
    with 3 obtain pre a post where p: "attempts st = pre @ a # post"
           "\<forall>b \<in> set pre. a_score b \<noteq> Some (bestScore st)"
           "a_score a = Some (bestScore st)" "a_success a"
           "invokeProvider env (a_provider a) request = Inr (bestResult st)"
           "bestScore st = v_score (validateResponse (bestResult st) request)"
           "bestValidation st = Some (validateResponse (bestResult st) request)"
      by blast
    have fnd: "find (\<lambda>a. a_score a = Some (bestScore st)) (attempts st) = Some a"
      unfolding p(1) by (rule find_first_match) (use p in auto)
    from invokeProvider_name[OF p(5)] have ne: "a_provider a \<noteq> []" by auto
    have mem: "a \<in> set (r_attempts resp)" unfolding as p(1) by simp
    have le: "\<forall>b \<in> set (r_attempts resp).
              \<forall>s. a_score b = Some s \<longrightarrow> s \<le> v_score (validateResponse (bestResult st) request)"
      using 1 p(6) unfolding as by auto
    have res: "if truthy (bestResult st)
            then r_success resp \<and> r_data resp = bestResult st \<and> r_provider resp = a_provider a
               \<and> r_final_score resp = v_score (validateResponse (bestResult st) request)
               \<and> r_validation resp = Some (validateResponse (bestResult st) request)
            else \<not> r_success resp \<and> r_data resp = JNull \<and> r_provider resp = ''none''
               \<and> r_final_score resp = 0"
      using fnd ne p(6,7) sc out by (simp split: if_splits)
    show ?thesis
      apply (rule bexI[OF _ mem])
      apply (rule exI[of _ "bestResult st"])
      using p le res by simp
  qed
  have C: "r_total_processing_time_ms resp
       = clock env (1 + 2 * length (r_attempts resp)) - clock env 0"
    unfolding tm as run_attempts_ticks[OF run] ..
  from A B C show ?thesis by blast
qed

text \<open>
  The call returns a response when every thrown value has a readable \<^verbatim>\<open>message\<close>, and
  every entry of the ledger of a response is the record of one of the providers.
\<close>

lemma processRequest_returns:
  assumes "throws_readable env request"
  shows "\<exists>resp. processRequest providers env request = Inr resp"
proof -
  from run_attempts_returns[OF assms] obtain st where
    "run_attempts providers env request = Inr st" by blast
  from processRequest_run[OF this] show ?thesis by blast
qed

lemma processRequest_failed_attempts:
  assumes "processRequest providers env request = Inr resp"
    and "a \<in> set (r_attempts resp)"
  shows "\<exists>p \<in> set (sortedProviders providers). attempt_records env request p a"
proof -
  from assms(1) obtain st where run: "run_attempts providers env request = Inr st"
    and as: "r_attempts resp = attempts st"
    by (rule processRequest_returned)
  from run_attempts_ledger[OF run]
  have all2: "list_all2 (attempt_records env request)
           (take (length (attempts st)) (sortedProviders providers)) (attempts st)" by blast
  from assms(2) obtain i where i: "i < length (attempts st)" "a = attempts st ! i"
    unfolding as by (auto simp: in_set_conv_nth)
  from all2 i have "attempt_records env request
      (take (length (attempts st)) (sortedProviders providers) ! i) a"
    by (auto simp: list_all2_conv_all_nth)
  moreover have "take (length (attempts st)) (sortedProviders providers) ! i
      \<in> set (sortedProviders providers)"
    using all2 i(1) by (metis in_set_takeD list_all2_lengthD nth_mem)
  ultimately show ?thesis by blast
qed

text \<open>
  Claim C2. Let \<open>p\<close> be a provider of the priority order whose result meets the
  threshold, and let every provider before it throw or score below the threshold, with
  the retry budget not yet used up before \<open>p\<close>. Then the call returns a response whose
  ledger holds exactly these providers and ends with \<open>p\<close>: no later provider is
  attempted. With \<open>pre = []\<close> this is the case of P1 and P2: the ledger has the one entry
  of P1. An entry that meets the threshold is the last one of the ledger. The only
  other outcome is that an earlier provider threw \<^verbatim>\<open>null\<close> or \<^verbatim>\<open>undefined\<close>: reading its
  \<^verbatim>\<open>message\<close> raises a \<^verbatim>\<open>TypeError\<close> and no response is returned at all.
\<close>

theorem processRequest_early_exit:
  assumes "sortedProviders providers = pre @ p # post"
    and "\<forall>q \<in> set pre. \<forall>r. invokeProvider env (name q) request = Inr r
           \<longrightarrow> v_score (validateResponse r request) < resolved_minimumScore request"
    and "\<not> length_reaches (length pre) (resolved_maxRetries request)"
    and "invokeProvider env (name p) request = Inr result"
    and "v_score (validateResponse result request) \<ge> resolved_minimumScore request"
  shows "if \<forall>q \<in> set pre. \<forall>thrown. invokeProvider env (name q) request = Inl thrown
               \<longrightarrow> read_message thrown \<noteq> None
         then \<exists>resp. processRequest providers env request = Inr resp
              \<and> map a_provider (r_attempts resp) = map name pre @ [name p]
              \<and> length (r_attempts resp) = Suc (length pre)
              \<and> (\<forall>a \<in> set (butlast (r_attempts resp)).
                    \<forall>s. a_score a = Some s \<longrightarrow> s < resolved_minimumScore request)
         else processRequest providers env request = Inl TypeError"
proof -
  let ?readable = "\<forall>q \<in> set pre. \<forall>thrown. invokeProvider env (name q) request = Inl thrown
               \<longrightarrow> read_message thrown \<noteq> None"
  have b: "\<not> length_reaches (length (attempts initial_loop_state) + length pre)
              (resolved_maxRetries request)"
    using assms(3) by (simp add: initial_loop_state_def)
  note g = attempt_loop_early_exit_general[OF assms(2) assms(4) assms(5) b, of post,
      folded assms(1), folded run_attempts_def]
  show ?thesis
  proof (cases ?readable)
    case False
    with g have "run_attempts providers env request = Inl TypeError" by presburger
    then have "processRequest providers env request = Inl TypeError"
      by (rule processRequest_raises)
    with False show ?thesis by presburger
  next
    case True
    with g have "\<exists>st. run_attempts providers env request = Inr st
        \<and> map a_provider (attempts st)
                = map a_provider (attempts initial_loop_state) @ map name pre @ [name p]"
      by simp
    then obtain st where run: "run_attempts providers env request = Inr st"
      and m: "map a_provider (attempts st)
                = map a_provider (attempts initial_loop_state) @ map name pre @ [name p]"
      by blast
    from processRequest_run[OF run] obtain resp where
      r: "processRequest providers env request = Inr resp" "r_attempts resp = attempts st"
      by blast
    have m': "map a_provider (r_attempts resp) = map name pre @ [name p]"
      using m r(2) by (simp add: initial_loop_state_def)
    have "length (map a_provider (r_attempts resp)) = Suc (length pre)"
      unfolding m' by simp
    then have l: "length (r_attempts resp) = Suc (length pre)" by simp
    have "attempts st = attempts initial_loop_state @ attempts st"
      by (simp add: initial_loop_state_def)
    from attempt_loop_threshold_last[OF run[unfolded run_attempts_def] this]
    have t: "\<forall>a \<in> set (butlast (r_attempts resp)).
                    \<forall>s. a_score a = Some s \<longrightarrow> s < resolved_minimumScore request"
      unfolding r(2) .
    from r(1) m' l t have "\<exists>resp. processRequest providers env request = Inr resp
              \<and> map a_provider (r_attempts resp) = map name pre @ [name p]
              \<and> length (r_attempts resp) = Suc (length pre)
              \<and> (\<forall>a \<in> set (butlast (r_attempts resp)).
                    \<forall>s. a_score a = Some s \<longrightarrow> s < resolved_minimumScore request)"
      by blast
    with True show ?thesis by presburger
  qed
qed

text \<open>
  With the provider table of the class and the default threshold 0.7: OpenAI answers
  with content (score 0.9), Claude is never tried.
\<close>

theorem processRequest_early_exit_witness:
  "\<exists>resp. processRequest PROVIDERS env_openai_answers default_request = Inr resp
     \<and> map a_provider (r_attempts resp) = [''openai'']
     \<and> length (r_attempts resp) = 1"
proof -
  let ?p1 = "\<lparr> name = ''openai'', priority = 1, available = True \<rparr>"
  let ?p2 = "\<lparr> name = ''claude'', priority = 2, available = True \<rparr>"
  have s: "sortedProviders PROVIDERS = [] @ ?p1 # [?p2]"
    by (simp add: sortedProviders_def PROVIDERS_def)
  have i: "invokeProvider env_openai_answers (name ?p1) default_request
             = Inr (JObj [(''text'', JStr ''oak wood'')])"
    by (simp add: invokeProvider_def env_openai_answers_def)
  have v: "v_score (validateResponse (JObj [(''text'', JStr ''oak wood'')]) default_request)
             \<ge> resolved_minimumScore default_request"
    by (simp add: validateResponse_def hasError_def hasContent_def resolved_minimumScore_def
        default_request_def DEFAULT_MIN_SCORE_def)
  have b: "\<not> length_reaches (length ([]::AIProvider list)) (resolved_maxRetries default_request)"
    by (simp add: resolved_maxRetries_def default_request_def DEFAULT_MAX_RETRIES_def)
  have e: "\<forall>q \<in> set ([]::AIProvider list). \<forall>r. invokeProvider env_openai_answers (name q) default_request = Inr r
           \<longrightarrow> v_score (validateResponse r default_request) < resolved_minimumScore default_request"
    by simp
  from processRequest_early_exit[OF s e b i v]
  have "\<exists>resp. processRequest PROVIDERS env_openai_answers default_request = Inr resp
     \<and> map a_provider (r_attempts resp) = [''openai'']
     \<and> length (r_attempts resp) = 1
     \<and> (\<forall>a \<in> set (butlast (r_attempts resp)).
           \<forall>s. a_score a = Some s \<longrightarrow> s < resolved_minimumScore default_request)"
    by simp
  then show ?thesis
    apply (elim exE conjE)
    subgoal for resp
      apply (rule exI[of _ resp])
      apply simp
      done
    done
qed

text \<open>
  Claim C3, as the code has it. \<^verbatim>\<open>maxRetries\<close> is any number, and the loop stops before
  a provider once \<^verbatim>\<open>attempts.length >= maxRetries\<close>. So the ledger of a returned response
  never holds more entries than the least whole number that is not below \<^verbatim>\<open>maxRetries\<close>:
  at most \<^verbatim>\<open>maxRetries\<close> entries when the budget is a whole number, none when it is zero or
  less, fewer than \<^verbatim>\<open>maxRetries + 1\<close> otherwise; \<^verbatim>\<open>NaN\<close> and \<^verbatim>\<open>Infinity\<close> bound nothing and
  only the provider list ends the loop. When no attempt meets the threshold the ledger
  holds exactly as many entries as this bound and the provider list allow. With
  \<^verbatim>\<open>maxRetries = 1\<close> and a first provider that throws an error, the ledger is that one
  failed attempt and the response is a failure with score zero, whatever the remaining
  providers would do.
\<close>

theorem processRequest_retry_budget:
  "(\<forall>resp. processRequest providers env request = Inr resp \<longrightarrow>
       length (r_attempts resp) \<le> length (sortedProviders providers)
     \<and> (\<forall>b. budget_bound (resolved_maxRetries request) = Some b \<longrightarrow> length (r_attempts resp) \<le> b)
     \<and> (\<forall>m. resolved_maxRetries request = Num (real m) \<longrightarrow> length (r_attempts resp) \<le> m)
     \<and> (\<forall>r. resolved_maxRetries request = Num r \<longrightarrow>
            (r \<le> 0 \<longrightarrow> r_attempts resp = []) \<and> (0 < r \<longrightarrow> real (length (r_attempts resp)) < r + 1))
     \<and> ((\<forall>a \<in> set (r_attempts resp). \<forall>s. a_score a = Some s \<longrightarrow> s < resolved_minimumScore request)
          \<longrightarrow> length (r_attempts resp)
                = (case budget_bound (resolved_maxRetries request) of
                     Some b \<Rightarrow> min b (length (sortedProviders providers))
                   | None \<Rightarrow> length (sortedProviders providers))))
   \<and> (maxRetries request = Some (Num 1) \<and> sortedProviders providers = p1 # rest
        \<and> invokeProvider env (name p1) request = Inl thrown \<and> read_message thrown = Some msg
      \<longrightarrow> (\<exists>resp. processRequest providers env request = Inr resp
            \<and> map a_provider (r_attempts resp) = [name p1]
            \<and> map a_success (r_attempts resp) = [False]
            \<and> map a_error (r_attempts resp) = [Some msg]
            \<and> \<not> r_success resp
            \<and> r_final_score resp = 0))"
proof -
  have A: "length (r_attempts resp) \<le> length (sortedProviders providers)
     \<and> (\<forall>b. budget_bound (resolved_maxRetries request) = Some b \<longrightarrow> length (r_attempts resp) \<le> b)
     \<and> (\<forall>m. resolved_maxRetries request = Num (real m) \<longrightarrow> length (r_attempts resp) \<le> m)
     \<and> (\<forall>r. resolved_maxRetries request = Num r \<longrightarrow>
            (r \<le> 0 \<longrightarrow> r_attempts resp = []) \<and> (0 < r \<longrightarrow> real (length (r_attempts resp)) < r + 1))
     \<and> ((\<forall>a \<in> set (r_attempts resp). \<forall>s. a_score a = Some s \<longrightarrow> s < resolved_minimumScore request)
          \<longrightarrow> length (r_attempts resp)
                = (case budget_bound (resolved_maxRetries request) of
                     Some b \<Rightarrow> min b (length (sortedProviders providers))
                   | None \<Rightarrow> length (sortedProviders providers)))"
    if ret: "processRequest providers env request = Inr resp" for resp
  proof -
    from ret obtain st where run: "run_attempts providers env request = Inr st"
      and as: "r_attempts resp = attempts st"
      by (rule processRequest_returned)
    note loop = run[unfolded run_attempts_def]
    have a: "length (r_attempts resp) \<le> length (sortedProviders providers)"
      unfolding as by (rule run_attempts_ledger[OF run])
    have b: "length (r_attempts resp) \<le> b"
      if "budget_bound (resolved_maxRetries request) = Some b" for b
      using attempt_loop_budget[OF loop that] unfolding as
      by (simp add: initial_loop_state_def)
    have c: "length (r_attempts resp) \<le> m" if "resolved_maxRetries request = Num (real m)" for m
      using b[of m] that by simp
    have d: "(r \<le> 0 \<longrightarrow> r_attempts resp = []) \<and> (0 < r \<longrightarrow> real (length (r_attempts resp)) < r + 1)"
      if "resolved_maxRetries request = Num r" for r
    proof -
      from b[of "nat \<lceil>r\<rceil>"] that have le: "length (r_attempts resp) \<le> nat \<lceil>r\<rceil>" by simp
      have "r_attempts resp = []" if "r \<le> 0"
      proof -
        from that have "\<lceil>r\<rceil> \<le> 0" by (simp add: ceiling_le_iff)
        with le show ?thesis by simp
      qed
      moreover have "real (length (r_attempts resp)) < r + 1" if "0 < r"
      proof -
        from that have "0 \<le> \<lceil>r\<rceil>" by (simp add: le_ceiling_iff)
        with le have "int (length (r_attempts resp)) \<le> \<lceil>r\<rceil>" by linarith
        then have "real (length (r_attempts resp)) \<le> real_of_int \<lceil>r\<rceil>"
          by (metis of_int_le_iff of_int_of_nat_eq)
        also have "\<dots> < r + 1" by linarith
        finally show ?thesis .
      qed
      ultimately show ?thesis by blast
    qed
    have e: "length (r_attempts resp)
                = (case budget_bound (resolved_maxRetries request) of
                     Some b \<Rightarrow> min b (length (sortedProviders providers))
                   | None \<Rightarrow> length (sortedProviders providers))"
      if "\<forall>a \<in> set (r_attempts resp). \<forall>s. a_score a = Some s \<longrightarrow> s < resolved_minimumScore request"
    proof -
      have "attempts st = attempts initial_loop_state @ attempts st"
        by (simp add: initial_loop_state_def)
      from attempt_loop_exhaustive[OF loop this that[unfolded as]]
      show ?thesis unfolding as by (simp add: initial_loop_state_def split: option.splits)
    qed
    from a b c d e show ?thesis by blast
  qed
  have B: "\<exists>resp. processRequest providers env request = Inr resp
            \<and> map a_provider (r_attempts resp) = [name p1]
            \<and> map a_success (r_attempts resp) = [False]
            \<and> map a_error (r_attempts resp) = [Some msg]
            \<and> \<not> r_success resp
            \<and> r_final_score resp = 0"
    if "maxRetries request = Some (Num 1)" "sortedProviders providers = p1 # rest"
       "invokeProvider env (name p1) request = Inl thrown" "read_message thrown = Some msg"
  proof -
    have "attempt_loop env request (resolved_minimumScore request) (Num 1) rest st = Inr st"
      if "length (attempts st) = 1" for st
      using that by (cases rest) simp_all
    then show ?thesis using that
      by (simp add: processRequest_def run_attempts_def initial_loop_state_def
          resolved_maxRetries_def Let_def)
  qed
  from A B show ?thesis by blast
qed

text \<open>
  With the provider table of the class: OpenAI times out, the budget is one, and Claude,
  which would answer, is not tried.
\<close>

theorem processRequest_retry_budget_witness:
  "\<exists>resp. processRequest PROVIDERS env_openai_down one_retry_request = Inr resp
   \<and> length (r_attempts resp) = 1
   \<and> map a_provider (r_attempts resp) = [''openai'']
   \<and> map a_success (r_attempts resp) = [False]
   \<and> \<not> r_success resp
   \<and> budget_bound (resolved_maxRetries one_retry_request) = Some 1
   \<and> invokeProvider env_openai_down ''claude'' one_retry_request
       = Inr (JObj [(''text'', JStr ''pine wood'')])"
proof -
  let ?p1 = "\<lparr> name = ''openai'', priority = 1, available = True \<rparr>"
  let ?p2 = "\<lparr> name = ''claude'', priority = 2, available = True \<rparr>"
  have s: "sortedProviders PROVIDERS = ?p1 # [?p2]"
    by (simp add: sortedProviders_def PROVIDERS_def)
  have i0: "invokeProvider env_openai_down ''openai'' one_retry_request
              = Inl (error_object ''timeout'')"
    by (simp add: invokeProvider_def env_openai_down_def)
  then have i: "invokeProvider env_openai_down (name ?p1) one_retry_request
              = Inl (error_object ''timeout'')"
    by simp
  have rm: "read_message (error_object ''timeout'') = Some (JStr ''timeout'')"
    by (simp add: error_object_def)
  have m: "maxRetries one_retry_request = Some (Num 1)"
    by (simp add: one_retry_request_def)
  have r: "budget_bound (resolved_maxRetries one_retry_request) = Some 1"
    by (simp add: resolved_maxRetries_def one_retry_request_def)
  have c: "invokeProvider env_openai_down ''claude'' one_retry_request
       = Inr (JObj [(''text'', JStr ''pine wood'')])"
    by (simp add: invokeProvider_def env_openai_down_def)
  note t = processRequest_retry_budget[of PROVIDERS env_openai_down one_retry_request
      ?p1 "[?p2]" "error_object ''timeout''" "JStr ''timeout''"]
  have pre: "maxRetries one_retry_request = Some (Num 1) \<and> sortedProviders PROVIDERS = ?p1 # [?p2]
        \<and> invokeProvider env_openai_down (name ?p1) one_retry_request = Inl (error_object ''timeout'')
        \<and> read_message (error_object ''timeout'') = Some (JStr ''timeout'')"
    by (intro conjI m s i rm)
  from t[THEN conjunct2, THEN mp, OF pre] obtain resp where
    resp: "processRequest PROVIDERS env_openai_down one_retry_request = Inr resp"
      "map a_provider (r_attempts resp) = [name ?p1]" "map a_success (r_attempts resp) = [False]"
      "\<not> r_success resp"
    by (elim exE conjE)
  from resp(2) have "length (map a_provider (r_attempts resp)) = 1" by simp
  then have l: "length (r_attempts resp) = 1" by simp
  from t[THEN conjunct1, THEN spec, THEN mp, OF resp(1)] r
  have "length (r_attempts resp) \<le> 1" by blast
  with resp l r c show ?thesis by simp
qed

text \<open>
  Claim C3 as stated fails on a fractional budget. With the provider calls of the class
  as written and \<^verbatim>\<open>maxRetries = 1.5\<close>, the test \<^verbatim>\<open>1 >= 1.5\<close> is false after the first
  failed attempt, the second provider is tried, and the ledger holds two entries, which
  is more than \<^verbatim>\<open>maxRetries\<close>.
\<close>

theorem processRequest_fractional_budget_counterexample:
  "maxRetries fractional_retry_request = Some (Num (3 / 2))
   \<and> map_sum id (\<lambda>resp. length (r_attempts resp))
       (processRequest PROVIDERS (client_env steady_clock) fractional_retry_request) = Inr 2
   \<and> \<not> real 2 \<le> 3 / 2"
  by (simp add: fractional_retry_request_def processRequest_def run_attempts_def
      initial_loop_state_def sortedProviders_def PROVIDERS_def client_env_def
      client_callOpenAI_def client_callClaude_def error_object_def default_request_def
      resolved_maxRetries_def resolved_minimumScore_def DEFAULT_MIN_SCORE_def
      invokeProvider_def Let_def)

text \<open>
  Claim C10. Entry \<open>i\<close> of the ledger of a response is the try of provider \<open>i\<close> in
  priority order. It has \<^verbatim>\<open>success = true\<close> and the validation score exactly when the
  invocation returned, whatever the score: a result with an error field or an error
  status is a successful attempt of score 0.1. It has \<^verbatim>\<open>success = false\<close>, no score and
  the \<^verbatim>\<open>message\<close> of the thrown value exactly when the invocation threw.
\<close>

theorem processRequest_ledger_success_flag:
  assumes "processRequest providers env request = Inr resp"
  shows "length (r_attempts resp) \<le> length (sortedProviders providers)
   \<and> (\<forall>i < length (r_attempts resp).
        a_provider (r_attempts resp ! i) = name (sortedProviders providers ! i)
        \<and> (case invokeProvider env (name (sortedProviders providers ! i)) request of
             Inr result \<Rightarrow>
               a_success (r_attempts resp ! i)
               \<and> a_score (r_attempts resp ! i) = Some (v_score (validateResponse result request))
               \<and> (spec_has_error result \<longrightarrow> a_score (r_attempts resp ! i) = Some (1 / 10))
           | Inl thrown \<Rightarrow>
               \<not> a_success (r_attempts resp ! i)
               \<and> a_score (r_attempts resp ! i) = None
               \<and> a_error (r_attempts resp ! i) = read_message thrown
               \<and> a_error (r_attempts resp ! i) \<noteq> None))"
proof -
  let ?as = "r_attempts resp"
  let ?ps = "sortedProviders providers"
  from assms obtain st where run: "run_attempts providers env request = Inr st"
    and as: "r_attempts resp = attempts st"
    by (rule processRequest_returned)
  from run_attempts_ledger[OF run]
  have len: "length ?as \<le> length ?ps"
    and all2: "list_all2 (attempt_records env request) (take (length ?as) ?ps) ?as"
    unfolding as by blast+
  have "a_provider (?as ! i) = name (?ps ! i)
        \<and> (case invokeProvider env (name (?ps ! i)) request of
             Inr result \<Rightarrow>
               a_success (?as ! i)
               \<and> a_score (?as ! i) = Some (v_score (validateResponse result request))
               \<and> (spec_has_error result \<longrightarrow> a_score (?as ! i) = Some (1 / 10))
           | Inl thrown \<Rightarrow>
               \<not> a_success (?as ! i) \<and> a_score (?as ! i) = None
               \<and> a_error (?as ! i) = read_message thrown \<and> a_error (?as ! i) \<noteq> None)"
    if "i < length ?as" for i
  proof -
    from all2 that len have "attempt_records env request (?ps ! i) (?as ! i)"
      by (auto simp add: list_all2_conv_all_nth)
    then show ?thesis
      by (auto simp: attempt_records_def validateResponse_def spec_has_error_def hasError_def
               split: sum.splits dest: sym)
  qed
  with len show ?thesis by blast
qed

text \<open>
  OpenAI resolves to an error payload and Claude times out: the first attempt is
  recorded as successful with score 0.1, the second as failed with its message.
\<close>

theorem processRequest_ledger_success_flag_witness:
  "\<exists>resp. processRequest PROVIDERS env_openai_error_payload default_request = Inr resp
   \<and> a_success (r_attempts resp ! 0)
   \<and> a_score (r_attempts resp ! 0) = Some (1 / 10)
   \<and> \<not> a_success (r_attempts resp ! 1)
   \<and> a_error (r_attempts resp ! 1) = Some (JStr ''timeout'')"
proof -
  have "\<exists>resp. processRequest PROVIDERS env_openai_error_payload default_request = Inr resp
          \<and> length (r_attempts resp) = 2"
    by (simp add: processRequest_def run_attempts_def initial_loop_state_def sortedProviders_def
        PROVIDERS_def env_openai_error_payload_def default_request_def resolved_maxRetries_def
        resolved_minimumScore_def DEFAULT_MIN_SCORE_def DEFAULT_MAX_RETRIES_def error_object_def
        invokeProvider_def validateResponse_def hasError_def hasContent_def Let_def)
  then obtain resp where
    ret: "processRequest PROVIDERS env_openai_error_payload default_request = Inr resp"
    and len: "length (r_attempts resp) = 2" by blast
  let ?as = "r_attempts resp"
  have s0: "name (sortedProviders PROVIDERS ! 0) = ''openai''"
    and s1: "name (sortedProviders PROVIDERS ! 1) = ''claude''"
    by (simp_all add: sortedProviders_def PROVIDERS_def)
  have i0: "invokeProvider env_openai_error_payload ''openai'' default_request
              = Inr (JObj [(''error'', JStr ''rate limited'')])"
    and i1: "invokeProvider env_openai_error_payload ''claude'' default_request
              = Inl (error_object ''timeout'')"
    by (simp_all add: invokeProvider_def env_openai_error_payload_def)
  have e: "spec_has_error (JObj [(''error'', JStr ''rate limited'')])"
    by (simp add: spec_has_error_def)
  note t = processRequest_ledger_success_flag[OF ret]
  from len have "0 < length ?as \<and> 1 < length ?as" by simp
  with t have
    "case invokeProvider env_openai_error_payload (name (sortedProviders PROVIDERS ! 0)) default_request of
       Inr result \<Rightarrow> a_success (?as ! 0)
               \<and> a_score (?as ! 0) = Some (v_score (validateResponse result default_request))
               \<and> (spec_has_error result \<longrightarrow> a_score (?as ! 0) = Some (1 / 10))
     | Inl thrown \<Rightarrow> \<not> a_success (?as ! 0) \<and> a_score (?as ! 0) = None
               \<and> a_error (?as ! 0) = read_message thrown \<and> a_error (?as ! 0) \<noteq> None"
    "case invokeProvider env_openai_error_payload (name (sortedProviders PROVIDERS ! 1)) default_request of
       Inr result \<Rightarrow> a_success (?as ! 1)
               \<and> a_score (?as ! 1) = Some (v_score (validateResponse result default_request))
               \<and> (spec_has_error result \<longrightarrow> a_score (?as ! 1) = Some (1 / 10))
     | Inl thrown \<Rightarrow> \<not> a_success (?as ! 1) \<and> a_score (?as ! 1) = None
               \<and> a_error (?as ! 1) = read_message thrown \<and> a_error (?as ! 1) \<noteq> None"
    by blast+
  then have "a_success (?as ! 0) \<and> a_score (?as ! 0) = Some (1 / 10)
     \<and> \<not> a_success (?as ! 1) \<and> a_error (?as ! 1) = Some (JStr ''timeout'')"
    unfolding s0 s1 i0 i1 using e
    by (simp add: validateResponse_def hasError_def error_object_def)
  with ret show ?thesis by blast
qed

text \<open>
  Claim C5, as the code has it. The validator scores 0.1 when the result has a truthy
  \<^verbatim>\<open>error\<close> or the status \<^verbatim>\<open>error\<close>, also when it has content; otherwise 0.9 when the
  result is any non-empty object, array or string, which includes every result with a
  non-empty \<^verbatim>\<open>text\<close>, \<^verbatim>\<open>raw_response\<close> or \<^verbatim>\<open>image_url\<close>; otherwise 0.3.
\<close>

theorem validateResponse_score:
  "v_score (validateResponse result request) =
     (if spec_has_error result then 1 / 10
      else if nonempty_value result then 9 / 10
      else 3 / 10)
   \<and> (spec_has_content_field result \<longrightarrow> nonempty_value result)"
proof -
  have "hasContent result = nonempty_value result"
    by (cases result) (auto simp: hasContent_def)
  moreover have "hasError result = spec_has_error result"
    by (simp add: hasError_def spec_has_error_def)
  moreover have "spec_has_content_field result \<longrightarrow> nonempty_value result"
    by (cases result) (auto simp: spec_has_content_field_def split: option.splits)
  ultimately show ?thesis by (simp add: validateResponse_def)
qed

text \<open>
  A result with text scores 0.9; the same result with the status \<^verbatim>\<open>error\<close> scores
  0.1; the empty object scores 0.3.
\<close>

theorem validateResponse_score_witness:
  "spec_has_content_field (JObj [(''text'', JStr ''oak wood'')])
   \<and> nonempty_value (JObj [(''text'', JStr ''oak wood'')])
   \<and> v_score (validateResponse (JObj [(''text'', JStr ''oak wood'')]) default_request) = 9 / 10
   \<and> v_score (validateResponse (JObj [(''text'', JStr ''oak wood''), (''status'', JStr ''error'')])
        default_request) = 1 / 10
   \<and> v_score (validateResponse (JObj []) default_request) = 3 / 10"
proof -
  have c: "spec_has_content_field (JObj [(''text'', JStr ''oak wood'')])"
    by (simp add: spec_has_content_field_def)
  have e: "\<not> spec_has_error (JObj [(''text'', JStr ''oak wood'')])"
    "spec_has_error (JObj [(''text'', JStr ''oak wood''), (''status'', JStr ''error'')])"
    "\<not> spec_has_error (JObj [])"
    by (simp_all add: spec_has_error_def)
  from validateResponse_score[of "JObj [(''text'', JStr ''oak wood'')]" default_request] c e
  have 1: "nonempty_value (JObj [(''text'', JStr ''oak wood'')])
     \<and> v_score (validateResponse (JObj [(''text'', JStr ''oak wood'')]) default_request) = 9 / 10"
    by simp
  from validateResponse_score[of "JObj [(''text'', JStr ''oak wood''), (''status'', JStr ''error'')]"
      default_request] e
  have 2: "v_score (validateResponse (JObj [(''text'', JStr ''oak wood''), (''status'', JStr ''error'')])
        default_request) = 1 / 10"
    by simp
  from validateResponse_score[of "JObj []" default_request] e
  have 3: "v_score (validateResponse (JObj []) default_request) = 3 / 10"
    by simp
  from c 1 2 3 show ?thesis by blast
qed

text \<open>
  Claim C5 as stated fails on a result whose only field is an empty \<^verbatim>\<open>text\<close>: it
  has no non-empty content field and no error, and scores 0.9, not 0.3.
\<close>

theorem validateResponse_empty_field_counterexample:
  "\<not> spec_has_content_field (JObj [(''text'', JStr '''')])
   \<and> \<not> spec_has_error (JObj [(''text'', JStr '''')])
   \<and> v_score (validateResponse (JObj [(''text'', JStr '''')]) default_request) = 9 / 10
   \<and> v_score (validateResponse (JObj [(''text'', JStr '''')]) default_request) \<noteq> 3 / 10"
  by (simp add: spec_has_content_field_def spec_has_error_def validateResponse_def
      hasError_def hasContent_def)

text \<open>
  Claim C4. Let the provider calls behave as the interface of the class says: what
  they throw is an error value, whose \<^verbatim>\<open>message\<close> can be read, and what they return is a
  truthy result. Then \<^verbatim>\<open>processRequest\<close> raises nothing and returns a response. If some
  attempt succeeded, the response is a success carrying the result of the first
  attempt with the highest score, the name of its provider, that score and its
  validation. If every attempt failed, it is the failure response: \<^verbatim>\<open>success = false\<close>,
  no data, provider \<^verbatim>\<open>none\<close>, final score zero, and a ledger in which every entry holds
  the message of what its provider threw. The total time is the span between the
  first and the last reading of the clock.
\<close>

theorem processRequest_response:
  assumes "throws_readable env request" and "results_truthy env request"
  shows "\<exists>resp. processRequest providers env request = Inr resp
     \<and> r_total_processing_time_ms resp
         = clock env (1 + 2 * length (r_attempts resp)) - clock env 0
     \<and> (if \<exists>a \<in> set (r_attempts resp). a_success a
        then \<exists>a \<in> set (r_attempts resp). \<exists>result.
               a_success a
             \<and> invokeProvider env (a_provider a) request = Inr result
             \<and> a_score a = Some (v_score (validateResponse result request))
             \<and> (\<forall>b \<in> set (r_attempts resp).
                   \<forall>s. a_score b = Some s \<longrightarrow> s \<le> v_score (validateResponse result request))
             \<and> r_success resp
             \<and> r_data resp = result
             \<and> r_provider resp = a_provider a
             \<and> r_final_score resp = v_score (validateResponse result request)
             \<and> r_validation resp = Some (validateResponse result request)
        else \<not> r_success resp
           \<and> r_data resp = JNull
           \<and> r_provider resp = ''none''
           \<and> r_final_score resp = 0
           \<and> (\<forall>a \<in> set (r_attempts resp). \<exists>thrown msg.
                 invokeProvider env (a_provider a) request = Inl thrown
               \<and> read_message thrown = Some msg \<and> a_error a = Some msg))"
proof -
  from processRequest_returns[OF assms(1)] obtain resp where
    ret: "processRequest providers env request = Inr resp" by blast
  note out = processRequest_outcome[OF ret]
  have tm: "r_total_processing_time_ms resp
         = clock env (1 + 2 * length (r_attempts resp)) - clock env 0"
    using out by blast
  have branch: "if \<exists>a \<in> set (r_attempts resp). a_success a
        then \<exists>a \<in> set (r_attempts resp). \<exists>result.
               a_success a
             \<and> invokeProvider env (a_provider a) request = Inr result
             \<and> a_score a = Some (v_score (validateResponse result request))
             \<and> (\<forall>b \<in> set (r_attempts resp).
                   \<forall>s. a_score b = Some s \<longrightarrow> s \<le> v_score (validateResponse result request))
             \<and> r_success resp
             \<and> r_data resp = result
             \<and> r_provider resp = a_provider a
             \<and> r_final_score resp = v_score (validateResponse result request)
             \<and> r_validation resp = Some (validateResponse result request)
        else \<not> r_success resp
           \<and> r_data resp = JNull
           \<and> r_provider resp = ''none''
           \<and> r_final_score resp = 0
           \<and> (\<forall>a \<in> set (r_attempts resp). \<exists>thrown msg.
                 invokeProvider env (a_provider a) request = Inl thrown
               \<and> read_message thrown = Some msg \<and> a_error a = Some msg)"
  proof (cases "\<exists>a \<in> set (r_attempts resp). a_success a")
    case True
    with out obtain a result where a: "a \<in> set (r_attempts resp)" "a_success a"
      "invokeProvider env (a_provider a) request = Inr result"
      "a_score a = Some (v_score (validateResponse result request))"
      "\<forall>b \<in> set (r_attempts resp).
          \<forall>s. a_score b = Some s \<longrightarrow> s \<le> v_score (validateResponse result request)"
      "if truthy result
            then r_success resp \<and> r_data resp = result \<and> r_provider resp = a_provider a
               \<and> r_final_score resp = v_score (validateResponse result request)
               \<and> r_validation resp = Some (validateResponse result request)
            else \<not> r_success resp \<and> r_data resp = JNull \<and> r_provider resp = ''none''
               \<and> r_final_score resp = 0"
      by blast
    from invokeProvider_truthy[OF assms(2) a(3)] a(6)
    have s: "r_success resp \<and> r_data resp = result \<and> r_provider resp = a_provider a
               \<and> r_final_score resp = v_score (validateResponse result request)
               \<and> r_validation resp = Some (validateResponse result request)"
      by simp
    have "\<exists>a \<in> set (r_attempts resp). \<exists>result.
               a_success a
             \<and> invokeProvider env (a_provider a) request = Inr result
             \<and> a_score a = Some (v_score (validateResponse result request))
             \<and> (\<forall>b \<in> set (r_attempts resp).
                   \<forall>s. a_score b = Some s \<longrightarrow> s \<le> v_score (validateResponse result request))
             \<and> r_success resp
             \<and> r_data resp = result
             \<and> r_provider resp = a_provider a
             \<and> r_final_score resp = v_score (validateResponse result request)
             \<and> r_validation resp = Some (validateResponse result request)"
      apply (rule bexI[OF _ a(1)])
      apply (rule exI[of _ result])
      using a(2-5) s by simp
    with True show ?thesis by presburger
  next
    case False
    with out have f: "\<not> r_success resp \<and> r_data resp = JNull \<and> r_provider resp = ''none''
           \<and> r_final_score resp = 0"
      by blast
    have "\<exists>thrown msg. invokeProvider env (a_provider a) request = Inl thrown
               \<and> read_message thrown = Some msg \<and> a_error a = Some msg"
      if "a \<in> set (r_attempts resp)" for a
    proof -
      from processRequest_failed_attempts[OF ret that] obtain p where
        p: "attempt_records env request p a" by blast
      from that False have "\<not> a_success a" by blast
      with p show ?thesis
        by (auto simp: attempt_records_def split: sum.splits dest: sym)
    qed
    with f False show ?thesis by simp
  qed
  from ret tm branch show ?thesis by blast
qed

text \<open>
  With the provider calls of the class, which always throw, the response is the
  failure response with the two messages in the ledger; with an OpenAI that answers,
  it is the success response carrying that answer.
\<close>

theorem processRequest_response_witness:
  "throws_readable (client_env steady_clock) default_request
   \<and> results_truthy (client_env steady_clock) default_request
   \<and> (\<exists>resp. processRequest PROVIDERS (client_env steady_clock) default_request = Inr resp
        \<and> \<not> r_success resp \<and> r_data resp = JNull \<and> r_provider resp = ''none''
        \<and> r_final_score resp = 0
        \<and> map a_error (r_attempts resp)
            = [Some (JStr ''Use callHybridAnalysis instead for client-side calls''),
               Some (JStr ''Use callHybridAnalysis instead for client-side calls'')])
   \<and> throws_readable env_openai_answers default_request
   \<and> results_truthy env_openai_answers default_request
   \<and> (\<exists>resp. processRequest PROVIDERS env_openai_answers default_request = Inr resp
        \<and> r_success resp \<and> r_data resp = JObj [(''text'', JStr ''oak wood'')]
        \<and> r_provider resp = ''openai'' \<and> r_final_score resp = 9 / 10)"
proof -
  have h1: "throws_readable (client_env steady_clock) default_request"
    "results_truthy (client_env steady_clock) default_request"
    by (simp_all add: throws_readable_def results_truthy_def client_env_def
        client_callOpenAI_def client_callClaude_def error_object_def)
  have h2: "throws_readable env_openai_answers default_request"
    "results_truthy env_openai_answers default_request"
    by (simp_all add: throws_readable_def results_truthy_def env_openai_answers_def)
  have l1: "\<exists>resp. processRequest PROVIDERS (client_env steady_clock) default_request = Inr resp
        \<and> map a_success (r_attempts resp) = [False, False]
        \<and> map a_error (r_attempts resp)
            = [Some (JStr ''Use callHybridAnalysis instead for client-side calls''),
               Some (JStr ''Use callHybridAnalysis instead for client-side calls'')]"
    by (simp add: processRequest_def run_attempts_def initial_loop_state_def sortedProviders_def
        PROVIDERS_def client_env_def client_callOpenAI_def client_callClaude_def error_object_def
        default_request_def resolved_maxRetries_def resolved_minimumScore_def
        DEFAULT_MIN_SCORE_def DEFAULT_MAX_RETRIES_def invokeProvider_def Let_def)
  have l2: "\<exists>resp. processRequest PROVIDERS env_openai_answers default_request = Inr resp
        \<and> map a_success (r_attempts resp) = [True]
        \<and> map a_provider (r_attempts resp) = [''openai'']"
    by (simp add: processRequest_def run_attempts_def initial_loop_state_def sortedProviders_def
        PROVIDERS_def env_openai_answers_def default_request_def resolved_maxRetries_def
        resolved_minimumScore_def DEFAULT_MIN_SCORE_def DEFAULT_MAX_RETRIES_def
        invokeProvider_def validateResponse_def hasError_def hasContent_def Let_def)
  have i: "invokeProvider env_openai_answers ''openai'' default_request
             = Inr (JObj [(''text'', JStr ''oak wood'')])"
    by (simp add: invokeProvider_def env_openai_answers_def)
  have v: "v_score (validateResponse (JObj [(''text'', JStr ''oak wood'')]) default_request) = 9 / 10"
    by (simp add: validateResponse_def hasError_def hasContent_def)
  from processRequest_response[OF h1, of PROVIDERS] l1
  have w1: "\<exists>resp. processRequest PROVIDERS (client_env steady_clock) default_request = Inr resp
        \<and> \<not> r_success resp \<and> r_data resp = JNull \<and> r_provider resp = ''none''
        \<and> r_final_score resp = 0
        \<and> map a_error (r_attempts resp)
            = [Some (JStr ''Use callHybridAnalysis instead for client-side calls''),
               Some (JStr ''Use callHybridAnalysis instead for client-side calls'')]"
  proof (elim exE conjE)
    fix resp resp'
    assume r: "processRequest PROVIDERS (client_env steady_clock) default_request = Inr resp"
      and b: "if \<exists>a \<in> set (r_attempts resp). a_success a
        then \<exists>a \<in> set (r_attempts resp). \<exists>result.
               a_success a
             \<and> invokeProvider (client_env steady_clock) (a_provider a) default_request = Inr result
             \<and> a_score a = Some (v_score (validateResponse result default_request))
             \<and> (\<forall>b \<in> set (r_attempts resp).
                   \<forall>s. a_score b = Some s \<longrightarrow> s \<le> v_score (validateResponse result default_request))
             \<and> r_success resp
             \<and> r_data resp = result
             \<and> r_provider resp = a_provider a
             \<and> r_final_score resp = v_score (validateResponse result default_request)
             \<and> r_validation resp = Some (validateResponse result default_request)
        else \<not> r_success resp
           \<and> r_data resp = JNull
           \<and> r_provider resp = ''none''
           \<and> r_final_score resp = 0
           \<and> (\<forall>a \<in> set (r_attempts resp). \<exists>thrown msg.
                 invokeProvider (client_env steady_clock) (a_provider a) default_request = Inl thrown
               \<and> read_message thrown = Some msg \<and> a_error a = Some msg)"
      and r': "processRequest PROVIDERS (client_env steady_clock) default_request = Inr resp'"
      and s: "map a_success (r_attempts resp') = [False, False]"
      and e: "map a_error (r_attempts resp')
            = [Some (JStr ''Use callHybridAnalysis instead for client-side calls''),
               Some (JStr ''Use callHybridAnalysis instead for client-side calls'')]"
    from r r' have eq: "resp' = resp" by simp
    have "set (map a_success (r_attempts resp)) = {False}" using s unfolding eq by simp
    then have "\<not> (\<exists>a \<in> set (r_attempts resp). a_success a)" by auto
    with b have f: "\<not> r_success resp \<and> r_data resp = JNull \<and> r_provider resp = ''none''
           \<and> r_final_score resp = 0" by presburger
    show ?thesis
      by (rule exI[of _ resp]) (intro conjI r f[THEN conjunct1] f[THEN conjunct2, THEN conjunct1]
          f[THEN conjunct2, THEN conjunct2, THEN conjunct1]
          f[THEN conjunct2, THEN conjunct2, THEN conjunct2] e[unfolded eq])
  qed
  from processRequest_response[OF h2, of PROVIDERS] l2
  have w2: "\<exists>resp. processRequest PROVIDERS env_openai_answers default_request = Inr resp
        \<and> r_success resp \<and> r_data resp = JObj [(''text'', JStr ''oak wood'')]
        \<and> r_provider resp = ''openai'' \<and> r_final_score resp = 9 / 10"
  proof (elim exE conjE)
    fix resp resp'
    assume r: "processRequest PROVIDERS env_openai_answers default_request = Inr resp"
      and b: "if \<exists>a \<in> set (r_attempts resp). a_success a
        then \<exists>a \<in> set (r_attempts resp). \<exists>result.
               a_success a
             \<and> invokeProvider env_openai_answers (a_provider a) default_request = Inr result
             \<and> a_score a = Some (v_score (validateResponse result default_request))
             \<and> (\<forall>b \<in> set (r_attempts resp).
                   \<forall>s. a_score b = Some s \<longrightarrow> s \<le> v_score (validateResponse result default_request))
             \<and> r_success resp
             \<and> r_data resp = result
             \<and> r_provider resp = a_provider a
             \<and> r_final_score resp = v_score (validateResponse result default_request)
             \<and> r_validation resp = Some (validateResponse result default_request)
        else \<not> r_success resp
           \<and> r_data resp = JNull
           \<and> r_provider resp = ''none''
           \<and> r_final_score resp = 0
           \<and> (\<forall>a \<in> set (r_attempts resp). \<exists>thrown msg.
                 invokeProvider env_openai_answers (a_provider a) default_request = Inl thrown
               \<and> read_message thrown = Some msg \<and> a_error a = Some msg)"
      and r': "processRequest PROVIDERS env_openai_answers default_request = Inr resp'"
      and s: "map a_success (r_attempts resp') = [True]"
      and n: "map a_provider (r_attempts resp') = [''openai'']"
    from r r' have eq: "resp' = resp" by simp
    from s n obtain a0 where a0: "r_attempts resp = [a0]" "a_success a0" "a_provider a0 = ''openai''"
      unfolding eq by auto
    then have "\<exists>a \<in> set (r_attempts resp). a_success a" by simp
    with b have "\<exists>a \<in> set (r_attempts resp). \<exists>result.
               a_success a
             \<and> invokeProvider env_openai_answers (a_provider a) default_request = Inr result
             \<and> a_score a = Some (v_score (validateResponse result default_request))
             \<and> (\<forall>b \<in> set (r_attempts resp).
                   \<forall>s. a_score b = Some s \<longrightarrow> s \<le> v_score (validateResponse result default_request))
             \<and> r_success resp
             \<and> r_data resp = result
             \<and> r_provider resp = a_provider a
             \<and> r_final_score resp = v_score (validateResponse result default_request)
             \<and> r_validation resp = Some (validateResponse result default_request)"
      by presburger
    then obtain result where
      res: "invokeProvider env_openai_answers ''openai'' default_request = Inr result"
      "r_success resp" "r_data resp = result" "r_provider resp = ''openai''"
      "r_final_score resp = v_score (validateResponse result default_request)"
      unfolding a0(1) using a0(3) by auto
    from res(1) i have "result = JObj [(''text'', JStr ''oak wood'')]" by simp
    with res v have g: "r_success resp" "r_data resp = JObj [(''text'', JStr ''oak wood'')]"
        "r_provider resp = ''openai''" "r_final_score resp = 9 / 10" by simp_all
    show ?thesis
      by (rule exI[of _ resp]) (intro conjI r g)
  qed
  show ?thesis by (intro conjI h1 h2 w1 w2)
qed

text \<open>
  The provider calls of the class as written always throw: every request gets the
  failure response, for whatever provider table, and no exception is raised.
\<close>

lemma processRequest_client_stubs:
  "\<exists>resp. processRequest providers (client_env c) request = Inr resp
     \<and> \<not> r_success resp \<and> r_data resp = JNull \<and> r_provider resp = ''none''
     \<and> r_final_score resp = 0
     \<and> r_total_processing_time_ms resp = c (1 + 2 * length (r_attempts resp)) - c 0
     \<and> (\<forall>a \<in> set (r_attempts resp). \<not> a_success a \<and> (\<exists>m. a_error a = Some (JStr m)))"
proof -
  from processRequest_returns[OF client_env_readable] obtain resp where
    ret: "processRequest providers (client_env c) request = Inr resp" by blast
  have fl: "\<not> a_success a \<and> (\<exists>m. a_error a = Some (JStr m))"
    if "a \<in> set (r_attempts resp)" for a
  proof -
    from processRequest_failed_attempts[OF ret that] obtain p where
      p: "attempt_records (client_env c) request p a" by blast
    from client_env_throws[of c "name p" request] obtain m where
      "invokeProvider (client_env c) (name p) request = Inl (error_object m)" by blast
    with p show ?thesis by (auto simp: attempt_records_def error_object_def)
  qed
  then have "\<forall>a \<in> set (r_attempts resp). \<not> a_success a" by blast
  with processRequest_outcome[OF ret] have
    "\<not> r_success resp \<and> r_data resp = JNull \<and> r_provider resp = ''none''
     \<and> r_final_score resp = 0
     \<and> r_total_processing_time_ms resp
         = clock (client_env c) (1 + 2 * length (r_attempts resp)) - clock (client_env c) 0"
    by blast
  then have "\<not> r_success resp \<and> r_data resp = JNull \<and> r_provider resp = ''none''
     \<and> r_final_score resp = 0
     \<and> r_total_processing_time_ms resp = c (1 + 2 * length (r_attempts resp)) - c 0"
    by (simp add: client_env_def)
  with ret fl show ?thesis by blast
qed

section \<open>Properties of the text extraction\<close>






















text \<open>
  The entities the function decodes: the five common ones and the non-breaking space.
\<close>

lemma decode_entities_examples:
  "decode_entities ''&quot;&#39;&nbsp;&amp;&lt;&gt;'' = [CHR 0x22, CHR 0x27, CHR '' '', CHR ''&'', CHR ''<'', CHR ''>'']"
  by code_simp



section \<open>Properties of the image relocation stage\<close>





text \<open>
  Claim C8. For a fetch that yields a response with a readable body of \<open>n\<close> bytes, the
  image is rejected before any upload exactly when the status is not ok, the content
  type does not start with \<^verbatim>\<open>image/\<close>, or \<open>n\<close> exceeds 5 MB; and when storage accepts
  uploads, the image is relocated exactly when none of the three holds.
\<close>

theorem downloadAndStoreImage_fetch_checks:
  assumes "fetch_image env imageUrl = Inr response"
    and "resp_blob response = Inr n"
  shows "((fst (downloadAndStoreImage env imageUrl userId index w) = None
           \<and> w_uploads (snd (downloadAndStoreImage env imageUrl userId index w)) = w_uploads w)
          \<longleftrightarrow> (\<not> resp_ok response \<or> \<not> is_image_response response \<or> n > 5 * 1024 * 1024))
       \<and> ((\<forall>path. storage_upload env ''material-images'' path = Inr None) \<longrightarrow>
            ((\<exists>img. fst (downloadAndStoreImage env imageUrl userId index w) = Some img
                    \<and> originalUrl img = imageUrl \<and> img_size img = n)
             \<longleftrightarrow> (resp_ok response \<and> is_image_response response \<and> n \<le> 5 * 1024 * 1024)))"
  using assms
  by (auto simp: downloadAndStoreImage_def downloadAndStoreImage_try_def log_event_def Let_def
        is_image_response_def MAX_IMAGE_BYTES_def
        split: sum.splits option.splits list.splits)

text \<open>
  A body of 5 MB and one byte is rejected; a body of exactly 5 MB is relocated.
\<close>

theorem downloadAndStoreImage_fetch_checks_witness:
  "fst (downloadAndStoreImage (env_with_blob 5242881) ''http://cdn.example/a.png'' ''u1'' 0 start_world)
      = None
   \<and> (\<exists>img. fst (downloadAndStoreImage (env_with_blob 5242880) ''http://cdn.example/a.png'' ''u1'' 0
                    start_world) = Some img \<and> img_size img = 5242880)"
proof -
  let ?r = "\<lambda>n. \<lparr> resp_ok = True, resp_status = 200,
                     resp_content_type = Some ''image/png'', resp_blob = Inr n \<rparr>"
  have f: "fetch_image (env_with_blob n) ''http://cdn.example/a.png'' = Inr (?r n)" for n
    by (simp add: env_with_blob_def)
  have b: "resp_blob (?r n) = Inr n" for n by simp
  have u: "\<forall>path. storage_upload (env_with_blob n) ''material-images'' path = Inr None" for n
    by (simp add: env_with_blob_def healthy_env_def)
  have i: "is_image_response (?r n)" for n
    by (simp add: is_image_response_def starts_with_def)
  from downloadAndStoreImage_fetch_checks[OF f b, of 5242881 "''u1''" 0 start_world]
  have 1: "fst (downloadAndStoreImage (env_with_blob 5242881) ''http://cdn.example/a.png'' ''u1'' 0
             start_world) = None"
    by simp
  from downloadAndStoreImage_fetch_checks[OF f b, of 5242880 "''u1''" 0 start_world] u[of 5242880] i[of 5242880]
  have 2: "\<exists>img. fst (downloadAndStoreImage (env_with_blob 5242880) ''http://cdn.example/a.png'' ''u1'' 0
                    start_world) = Some img \<and> img_size img = 5242880"
    by auto
  from 1 2 show ?thesis by blast
qed



text \<open>
  The computed fields of a stored entry: the three fixed scores, the image-processing
  score that depends on the number of relocated HTTP images alone, and the keywords,
  the first 15 space-separated tokens of the extracted text that are longer than three
  characters.
\<close>

lemma split_on_no_sep: "w \<in> set (split_on sep s) \<Longrightarrow> sep \<notin> set w"
proof (induction s arbitrary: w)
  case Nil
  then show ?case by simp
next
  case (Cons c s)
  show ?case
  proof (cases "c = sep")
    case True
    with Cons show ?thesis by auto
  next
    case False
    show ?thesis
    proof (cases "split_on sep s")
      case Nil
      with Cons.prems False show ?thesis by simp
    next
      case (Cons v vs)
      with Cons.prems False have "w = c # v \<or> w \<in> set vs" by simp
      then show ?thesis
      proof
        assume "w = c # v"
        moreover have "sep \<notin> set v" using Cons.IH[of v] Cons by simp
        ultimately show ?thesis using False by simp
      next
        assume "w \<in> set vs"
        then show ?thesis using Cons.IH[of w] Cons by simp
      qed
    qed
  qed
qed

lemma search_keywords_props:
  "length (search_keywords t) \<le> 15
   \<and> (\<forall>w \<in> set (search_keywords t). length w > 3 \<and> CHR '' '' \<notin> set w)"
proof -
  have "set (search_keywords t) \<subseteq> set (filter (\<lambda>word. length word > 3) (split_on CHR '' '' t))"
    unfolding search_keywords_def by (rule set_take_subset)
  then have "\<forall>w \<in> set (search_keywords t). length w > 3 \<and> CHR '' '' \<notin> set w"
    using split_on_no_sep by fastforce
  moreover have "length (search_keywords t) \<le> 15"
    unfolding search_keywords_def length_take by (rule min.cobounded2)
  ultimately show ?thesis by blast
qed

lemma process_document_entry:
  assumes "process_document env userId originalFilename language htmlContent imageUrls
             base64Images w = (Inr entry, w')"
  shows "conversion (ke_confidence_scores entry) = 9 / 10
       \<and> text_extraction (ke_confidence_scores entry) = 85 / 100
       \<and> overall (ke_confidence_scores entry) = 87 / 100
       \<and> image_processing (ke_confidence_scores entry)
           = (if images_processed (ke_storage_info entry) > 0 then 8 / 10 else 0)
       \<and> length (ke_search_keywords entry) \<le> 15
       \<and> (\<forall>w \<in> set (ke_search_keywords entry). length w > 3 \<and> CHR '' '' \<notin> set w)
       \<and> (\<exists>finalHtml. ke_search_keywords entry
             = take 15 (filter (\<lambda>word. length word > 3)
                          (split_on CHR '' '' (extractTextFromHTML finalHtml))))"
proof -
  obtain imgs w1 where h: "http_image_loop env userId imageUrls 0 [] w = (imgs, w1)"
    by (cases "http_image_loop env userId imageUrls 0 [] w")
  obtain b64s w2 where b: "base64_image_loop env userId base64Images 0 [] w1 = (b64s, w2)"
    by (cases "base64_image_loop env userId base64Images 0 [] w1")
  let ?final = "replaceBase64Sources (replaceImageUrls htmlContent imgs) b64s"
  let ?path = "userId @ ''/pdf-html/'' @ replace_first ''.pdf'' [] originalFilename
                @ ''-'' @ show_nat (date_now env (w_ticks w2)) @ ''.html''"
  let ?url = "storage_publicUrl env ''pdf-documents'' ?path"
  let ?entry = "build_knowledgeEntry originalFilename userId language ?final ?url
                  (extractTextFromHTML ?final) (generateEmbedding env (extractTextFromHTML ?final))
                  imageUrls base64Images imgs b64s"
  have e: "entry = ?entry"
  proof (cases "storage_upload env ''pdf-documents'' ?path")
    case (Inl thrown)
    with assms h b show ?thesis by (simp add: process_document_def Let_def)
  next
    case (Inr r)
    show ?thesis
    proof (cases "knowledge_insert env ?entry")
      case None
      with assms h b Inr show ?thesis by (simp add: process_document_def Let_def)
    next
      case (Some err)
      with assms h b Inr show ?thesis by (simp add: process_document_def Let_def)
    qed
  qed
  have k: "ke_search_keywords entry = search_keywords (extractTextFromHTML ?final)"
    and c: "ke_confidence_scores entry = confidence_of imgs"
    and n: "images_processed (ke_storage_info entry) = length imgs"
    unfolding e by (simp_all add: build_knowledgeEntry_def Let_def)
  have "\<exists>finalHtml. ke_search_keywords entry
             = take 15 (filter (\<lambda>word. length word > 3)
                          (split_on CHR '' '' (extractTextFromHTML finalHtml)))"
    unfolding k search_keywords_def by blast
  moreover have "conversion (confidence_of imgs) = 9 / 10
       \<and> text_extraction (confidence_of imgs) = 85 / 100
       \<and> overall (confidence_of imgs) = 87 / 100
       \<and> image_processing (confidence_of imgs) = (if length imgs > 0 then 8 / 10 else 0)"
    by (simp add: confidence_of_def)
  ultimately show ?thesis
    using search_keywords_props[of "extractTextFromHTML ?final"]
    unfolding k c n by blast
qed

text \<open>
  Claim C6 fails on a document whose only image is an inline base64 image. The image
  is relocated (\<^verbatim>\<open>base64_images_processed\<close> is 1), and the image-processing confidence
  is 0.0: it looks at the relocated HTTP images only.
\<close>

theorem inline_only_document_image_confidence:
  "map_sum (\<lambda>e. ()) (\<lambda>entry. (base64_images_processed (ke_storage_info entry),
                               image_processing (ke_confidence_scores entry)))
     (fst (process_document healthy_env ''u1'' ''doc.pdf'' None inline_only_html []
             [inline_png] start_world))
   = Inr (1, 0)"
  by code_simp

end
